theory Spec2Isabelle
  imports Complex_Main "HOL-Library.Log_Nat"
begin

section \<open>The parity notebook: data generation, dataset, length adjustment\<close>

text \<open>
  The source is one notebook, \<^verbatim>\<open>3_Recurrent/3.2-RNN-Introduction.ipynb\<close>. Its code
  cells are embedded here function by function, under the names of the source.

  \<^item> A numpy array or torch tensor is a handle (\<open>ndarray\<close>) on a buffer of the heap: the
    address of the buffer, the offset of the first element and the shape, in C order.
    Basic indexing and \<^verbatim>\<open>np.expand_dims\<close> give views: new handles on the same buffer.
  \<^item> The heap is the list of all buffers; an address is a position in it, and an
    allocation appends a buffer. Memory is not bounded in this model.
  \<^item> The element type of the buffers is \<^verbatim>\<open>float32\<close>. The code of the notebook only ever
    stores the values 0.0 and 1.0, which are exact, so an element is modelled by the
    real number it denotes.
  \<^item> The generator of random numbers is a stream of raw draws, part of the state; a
    theorem that holds for every stream holds for every outcome of the draws.
  \<^item> A Python exception is a value of \<open>error\<close>. A computation takes the state and returns
    its result or its error together with the state it reached, so that the writes
    made before an exception are kept.
\<close>

subsection \<open>State, errors and sequencing\<close>

datatype error = ValueError | IndexError | OverflowError | RuntimeError | NameError | TypeError

type_synonym addr = nat

record state =
  heap :: "real list list"
  gen :: "nat \<Rightarrow> nat"

type_synonym 'a comp = "state \<Rightarrow> (error + 'a) \<times> state"

definition returnE :: "'a \<Rightarrow> 'a comp" where
  "returnE x = (\<lambda>s. (Inr x, s))"

definition raise :: "error \<Rightarrow> 'a comp" where
  "raise e = (\<lambda>s. (Inl e, s))"

definition bindE :: "'a comp \<Rightarrow> ('a \<Rightarrow> 'b comp) \<Rightarrow> 'b comp" where
  "bindE m f = (\<lambda>s. case m s of (Inl e, s') \<Rightarrow> (Inl e, s') | (Inr x, s') \<Rightarrow> f x s')"

subsection \<open>Arrays on the heap\<close>

record ndarray =
  base :: addr
  offset :: nat
  shape :: "nat list"

definition alloc :: "real list \<Rightarrow> addr comp" where
  "alloc buf = (\<lambda>s. (Inr (length (heap s)), s\<lparr>heap := heap s @ [buf]\<rparr>))"

text \<open>The elements a handle denotes, in C order.\<close>

definition contents :: "real list list \<Rightarrow> ndarray \<Rightarrow> real list" where
  "contents h x = take (prod_list (shape x)) (drop (offset x) (h ! base x))"

text \<open>A handle is valid in a heap when its buffer exists and holds all its elements.\<close>

definition valid :: "real list list \<Rightarrow> ndarray \<Rightarrow> bool" where
  "valid h x \<longleftrightarrow> base x < length h \<and> offset x + prod_list (shape x) \<le> length (h ! base x)"

text \<open>\<open>x[i, t]\<close> of an array of shape \<open>[N, T]\<close>, and \<open>x[i, t, f]\<close> of one of shape \<open>[N, T, F]\<close>.\<close>

definition at2 :: "real list list \<Rightarrow> ndarray \<Rightarrow> nat \<Rightarrow> nat \<Rightarrow> real" where
  "at2 h x i t = h ! base x ! (offset x + i * (shape x ! 1) + t)"

definition at3 :: "real list list \<Rightarrow> ndarray \<Rightarrow> nat \<Rightarrow> nat \<Rightarrow> nat \<Rightarrow> real" where
  "at3 h x i t f = h ! base x ! (offset x + (i * (shape x ! 1) + t) * (shape x ! 2) + f)"

subsection \<open>Random integers\<close>

text \<open>\<open>draw n\<close> takes the next \<open>n\<close> raw draws from the generator.\<close>

definition draw :: "nat \<Rightarrow> nat list comp" where
  "draw n = (\<lambda>s. (Inr (map (gen s) [0..<n]), s\<lparr>gen := (\<lambda>k. gen s (n + k))\<rparr>))"

text \<open>
  \<^verbatim>\<open>np.random.randint(low, high=None, size)\<close>, from numpy's documentation: integers of
  the half-open interval \<open>[low, high)\<close>, or of \<open>[0, low)\<close> when \<open>high\<close> is \<open>None\<close>. A
  negative dimension is a \<^verbatim>\<open>ValueError\<close>; so is an empty interval, unless no element is
  asked for (numpy returns the empty array before it looks at the bounds). The result is
  the flat list of the elements; its shape is \<open>dims\<close>. Storage is not bounded here:
  numpy also refuses an array that the address space cannot hold (a dimension from
  \<open>2 ^ 63\<close> on, or as many bytes), and a machine may run out of memory before that.
\<close>

definition randint :: "int \<Rightarrow> int option \<Rightarrow> int list \<Rightarrow> int list comp" where
  "randint low high dims =
     (let lo = (case high of None \<Rightarrow> 0 | Some _ \<Rightarrow> low);
          hi = (case high of None \<Rightarrow> low | Some h \<Rightarrow> h)
      in if \<exists>d \<in> set dims. d < 0 then raise ValueError
         else if prod_list dims = 0 then returnE []
         else if hi \<le> lo then raise ValueError
         else bindE (draw (nat (prod_list dims)))
                (\<lambda>raw. returnE (map (\<lambda>r. lo + int r mod (hi - lo)) raw)))"

subsection \<open>get_random_bits_parity\<close>

text \<open>\<^verbatim>\<open>np.cumsum\<close> of one row: the running sums, accumulated from left to right.\<close>

fun cumsum_from :: "int \<Rightarrow> int list \<Rightarrow> int list" where
  "cumsum_from acc [] = []"
| "cumsum_from acc (x # xs) = (acc + x) # cumsum_from (acc + x) xs"

definition cumsum :: "int list \<Rightarrow> int list" where
  "cumsum xs = cumsum_from 0 xs"

text \<open>Row \<open>i\<close> of a flat buffer whose rows have \<open>T\<close> elements.\<close>

definition row :: "nat \<Rightarrow> 'a list \<Rightarrow> nat \<Rightarrow> 'a list" where
  "row T xs i = take T (drop (i * T) xs)"

text \<open>\<^verbatim>\<open>np.cumsum(a, axis=1)\<close> of an array of shape \<open>[N, T]\<close>.\<close>

definition cumsum_axis1 :: "nat \<Rightarrow> nat \<Rightarrow> int list \<Rightarrow> int list" where
  "cumsum_axis1 N T xs = concat (map (\<lambda>i. cumsum (row T xs i)) [0..<N])"

text \<open>
  The integer arrays \<^verbatim>\<open>bit_sequences\<close>, \<^verbatim>\<open>bitsum\<close> and the boolean \<^verbatim>\<open>parity\<close> are
  temporaries: values here. The sums are at most \<open>num_bits\<close>, far from the range of
  \<^verbatim>\<open>int64\<close>. The two \<^verbatim>\<open>astype('float32')\<close> allocate the arrays that are returned.
\<close>

definition get_random_bits_parity :: "int \<Rightarrow> int \<Rightarrow> (ndarray \<times> ndarray) comp" where
  "get_random_bits_parity num_sequences num_bits =
     bindE (randint 2 None [num_sequences, num_bits]) (\<lambda>bit_sequences.
       let N = nat num_sequences; T = nat num_bits;
           bitsum = cumsum_axis1 N T bit_sequences;
           parity = map (\<lambda>s. s mod 2 \<noteq> 0) bitsum
       in bindE (alloc (map of_int bit_sequences)) (\<lambda>a.
          bindE (alloc (map of_bool parity)) (\<lambda>b.
          returnE (\<lparr>base = a, offset = 0, shape = [N, T]\<rparr>,
                   \<lparr>base = b, offset = 0, shape = [N, T]\<rparr>))))"

subsection \<open>XORDataset\<close>

record XORDataset =
  num_sequences :: int
  num_bits :: int
  features :: ndarray
  labels :: ndarray

text \<open>\<^verbatim>\<open>np.expand_dims(a, -1)\<close>: a view of the same buffer with one more axis of length 1.\<close>

definition expand_dims_last :: "ndarray \<Rightarrow> ndarray" where
  "expand_dims_last x = x\<lparr>shape := shape x @ [1]\<rparr>"

definition XORDataset_init :: "int \<Rightarrow> int \<Rightarrow> XORDataset comp" where
  "XORDataset_init n_sequences n_bits =
     bindE (get_random_bits_parity n_sequences n_bits) (\<lambda>(f, l).
       returnE \<lparr>num_sequences = n_sequences, num_bits = n_bits,
                features = expand_dims_last f, labels = expand_dims_last l\<rparr>)"

text \<open>
  \<open>x[index]\<close> on the first axis: a view of one row. A negative index counts from the
  end; an index out of range, or an array without axes, is an \<^verbatim>\<open>IndexError\<close>.
\<close>

definition index_axis0 :: "ndarray \<Rightarrow> int \<Rightarrow> error + ndarray" where
  "index_axis0 x index =
     (case shape x of
        [] \<Rightarrow> Inl IndexError
      | n # rest \<Rightarrow>
          let j = (if index < 0 then index + int n else index)
          in if 0 \<le> j \<and> j < int n
             then Inr \<lparr>base = base x, offset = offset x + nat j * prod_list rest, shape = rest\<rparr>
             else Inl IndexError)"

text \<open>
  \<^verbatim>\<open>__getitem__\<close> returns \<^verbatim>\<open>self.features[index, :], self.labels[index]\<close>. The full
  slice \<^verbatim>\<open>:\<close> needs a second axis and changes nothing else. Both results are views.
\<close>

definition getitem :: "XORDataset \<Rightarrow> int \<Rightarrow> error + (ndarray \<times> ndarray)" where
  "getitem self index =
     (case index_axis0 (features self) index of
        Inl e \<Rightarrow> Inl e
      | Inr x \<Rightarrow>
          if shape x = [] then Inl IndexError
          else (case index_axis0 (labels self) index of
                  Inl e \<Rightarrow> Inl e
                | Inr y \<Rightarrow> Inr (x, y)))"

text \<open>\<^verbatim>\<open>__len__\<close> is \<^verbatim>\<open>len(self.features)\<close>, the length of the first axis.\<close>

definition len :: "XORDataset \<Rightarrow> nat" where
  "len self = hd (shape (features self))"

subsection \<open>The cumulative XOR of the specification\<close>

text \<open>
  The specification's label: the XOR of the bits seen so far. The arrays hold
  \<^verbatim>\<open>float32\<close> values, where a bit is set when the value is not zero.
\<close>

definition xor_bit :: "real \<Rightarrow> real \<Rightarrow> real" where
  "xor_bit a b = (if (a \<noteq> 0) \<noteq> (b \<noteq> 0) then 1 else 0)"

definition cumulative_xor :: "real list \<Rightarrow> real" where
  "cumulative_xor xs = foldl xor_bit 0 xs"

subsection \<open>adjust_lengths\<close>

definition liftE :: "error + 'a \<Rightarrow> 'a comp" where
  "liftE r = (case r of Inl e \<Rightarrow> raise e | Inr x \<Rightarrow> returnE x)"

text \<open>\<^verbatim>\<open>x.size()[k]\<close>: the length of axis \<open>k\<close>; the tuple of sizes has one entry per axis.\<close>

definition size_at :: "ndarray \<Rightarrow> nat \<Rightarrow> error + nat" where
  "size_at x k = (if k < length (shape x) then Inr (shape x ! k) else Inl IndexError)"

text \<open>
  A value of \<^verbatim>\<open>torch.int\<close> is a 32-bit integer in two's complement: \<open>int32 v\<close> is what
  is left of the Python integer \<open>v\<close> once it is stored with that type. (Releases of torch
  that refuse a scalar out of range raise instead; both agree below \<open>2 ^ 31\<close>.)
\<close>

definition int32 :: "int \<Rightarrow> int" where
  "int32 v = (v + 2 ^ 31) mod 2 ^ 32 - 2 ^ 31"

text \<open>\<open>xs[i] = v\<close> on a one-dimensional array, with Python's negative indices.\<close>

definition setitem :: "int list \<Rightarrow> int \<Rightarrow> int \<Rightarrow> error + int list" where
  "setitem xs i v =
     (let n = int (length xs); j = (if i < 0 then i + n else i)
      in if 0 \<le> j \<and> j < n then Inr (xs[nat j := v]) else Inl IndexError)"

text \<open>The buffer with the \<open>n\<close> elements from position \<open>lo\<close> on set to zero.\<close>

definition zero_range :: "nat \<Rightarrow> nat \<Rightarrow> real list \<Rightarrow> real list" where
  "zero_range lo n buf = map (\<lambda>j. if lo \<le> j \<and> j < lo + n then 0 else buf ! j) [0..<length buf]"

text \<open>
  \<^verbatim>\<open>x[i, l:, ] = 0\<close> on a tensor with at least two axes: in row \<open>i\<close>, every position from
  \<open>l\<close> on is set to zero, over all the trailing axes. A slice bound is clipped to the
  axis, and a negative one counts from its end. The write goes to the buffer of \<open>x\<close>.
\<close>

definition assign_tail_zero :: "ndarray \<Rightarrow> nat \<Rightarrow> int \<Rightarrow> unit comp" where
  "assign_tail_zero x i l =
     (case shape x of
        d0 # d1 # rest \<Rightarrow>
          if i < d0 then
            (let start = (if l < 0 then nat (max 0 (l + int d1)) else min (nat l) d1);
                 F = prod_list rest;
                 lo = offset x + (i * d1 + start) * F;
                 n = (d1 - start) * F
             in (\<lambda>s. (Inr (), s\<lparr>heap := (heap s)[base x := zero_range lo n (heap s ! base x)]\<rparr>)))
          else raise IndexError
      | _ \<Rightarrow> raise IndexError)"

text \<open>The loop \<^verbatim>\<open>for i, sample_length in enumerate(lengths)\<close>, over the indices given.\<close>

fun chop :: "nat list \<Rightarrow> int list \<Rightarrow> ndarray \<Rightarrow> ndarray \<Rightarrow> unit comp" where
  "chop [] lengths inputs targets = returnE ()"
| "chop (i # rest) lengths inputs targets =
     bindE (assign_tail_zero inputs i (lengths ! i)) (\<lambda>_.
     bindE (assign_tail_zero targets i (lengths ! i)) (\<lambda>_.
     chop rest lengths inputs targets))"

text \<open>
  \<open>lengths\<close> is a \<^verbatim>\<open>torch.int\<close> tensor when \<open>vary_lengths\<close> is false and an \<^verbatim>\<open>int64\<close>
  numpy array otherwise; both are lists of integers here. The values of the second are
  lengths of an axis, inside the range of \<^verbatim>\<open>int64\<close>, also when negated for the sort.
\<close>

definition adjust_lengths :: "bool \<Rightarrow> ndarray \<Rightarrow> ndarray \<Rightarrow> int list comp" where
  "adjust_lengths vary_lengths inputs targets =
     bindE (liftE (size_at inputs 0)) (\<lambda>batch_size.
     bindE (liftE (size_at inputs 1)) (\<lambda>max_bits.
       if \<not> vary_lengths
       then returnE (map (\<lambda>one. int32 (one * int max_bits)) (replicate batch_size 1))
       else
         bindE (randint 1 (Some (int max_bits)) [int batch_size]) (\<lambda>lengths.
         bindE (liftE (setitem lengths 0 (int max_bits))) (\<lambda>lengths.
         let lengths = map uminus (sort (map uminus lengths))
         in bindE (chop [0..<length lengths] lengths inputs targets) (\<lambda>_.
            returnE lengths)))))"

text \<open>
  The relation between the heap before and after writes of zeros: the buffers are the
  same in number and in length, and every element is as before or zero.
\<close>

definition zeroed :: "real list list \<Rightarrow> real list list \<Rightarrow> bool" where
  "zeroed h h' \<longleftrightarrow> length h' = length h \<and>
     (\<forall>a < length h. length (h' ! a) = length (h ! a) \<and>
        (\<forall>j < length (h ! a). h' ! a ! j = 0 \<or> h' ! a ! j = h ! a ! j))"

subsection \<open>evaluate: the length of the validation sequences\<close>

text \<open>
  \<^verbatim>\<open>int(max_bits * 1.5)\<close> is computed in binary64. Python converts the integer to the
  nearest double, ties to even, and raises \<^verbatim>\<open>OverflowError\<close> when that is not finite;
  the product with 1.5 is rounded the same way and is \<^verbatim>\<open>inf\<close> when it is too large,
  and \<^verbatim>\<open>int(inf)\<close> raises \<^verbatim>\<open>OverflowError\<close>; \<^verbatim>\<open>int\<close> truncates towards zero.

  \<open>round53 n\<close> is the non-negative integer \<open>n\<close> rounded to 53 significant bits, ties to
  even. The double of an integer is an integer, and its product with 1.5 is a multiple
  of one half: \<open>h\<close> below counts the halves of the rounded product, since rounding to 53
  significant bits commutes with halving.
\<close>

definition round53 :: "int \<Rightarrow> int" where
  "round53 n =
     (let L = bitlen n
      in if L \<le> 53 then n
         else let sh = nat (L - 53); q = n div 2 ^ sh; r = n mod 2 ^ sh; half = 2 ^ (sh - 1)
              in (if half < r \<or> (r = half \<and> odd q) then q + 1 else q) * 2 ^ sh)"

definition int_times_1_5 :: "int \<Rightarrow> error + int" where
  "int_times_1_5 m =
     (let d = round53 \<bar>m\<bar>
      in if 2 ^ 1024 \<le> d then Inl OverflowError
         else let h = round53 (3 * d)
              in if 2 ^ 1025 \<le> h then Inl OverflowError
                 else Inr (sgn m * (h div 2)))"

text \<open>
  The first statement of \<^verbatim>\<open>evaluate\<close>: the dataset of
  \<^verbatim>\<open>XORDataset(num_sequences=5000, num_bits=int(max_bits * 1.5))\<close>.
\<close>

definition evaluate_dataset :: "int \<Rightarrow> XORDataset comp" where
  "evaluate_dataset max_bits =
     bindE (liftE (int_times_1_5 max_bits)) (\<lambda>n_bits. XORDataset_init 5000 n_bits)"

subsection \<open>The model\<close>

text \<open>
  An object of the class \<^verbatim>\<open>RNN\<close>, as \<^verbatim>\<open>__init__\<close> makes it: \<^verbatim>\<open>self.rnn\<close> is a
  \<^verbatim>\<open>torch.nn.RNN\<close> with \<^verbatim>\<open>input_size=1\<close>, the given \<^verbatim>\<open>hidden_size\<close> and \<^verbatim>\<open>num_layers=1\<close>,
  \<^verbatim>\<open>self.hidden_to_logits\<close> is a \<^verbatim>\<open>torch.nn.Linear(hidden_size, 1)\<close>, and
  \<^verbatim>\<open>self.activation\<close> is a \<^verbatim>\<open>torch.nn.Sigmoid\<close>, which has no state. The state of the
  object is the hidden size and the parameters of the two layers, under torch's names:
  \<open>weight_ih j\<close> is \<^verbatim>\<open>rnn.weight_ih_l0[j, 0]\<close>, \<open>weight_hh j k\<close> is
  \<^verbatim>\<open>rnn.weight_hh_l0[j, k]\<close>, \<open>weight k\<close> is \<^verbatim>\<open>hidden_to_logits.weight[0, k]\<close> and \<open>bias\<close>
  is \<^verbatim>\<open>hidden_to_logits.bias[0]\<close>. torch draws the initial parameters at random, so
  they are arguments of \<open>RNN_init\<close>; the optimizer changes them in place.

  The layers are written from torch's documentation, over the reals: the rounding of
  \<^verbatim>\<open>float32\<close> is not modelled. A tensor of shape \<open>[B, T, F]\<close> that is only read is a
  nested list here.
\<close>

record parameters =
  weight_ih :: "nat \<Rightarrow> real"
  weight_hh :: "nat \<Rightarrow> nat \<Rightarrow> real"
  bias_ih :: "nat \<Rightarrow> real"
  bias_hh :: "nat \<Rightarrow> real"
  weight :: "nat \<Rightarrow> real"
  bias :: real

record RNN = parameters +
  hidden_size :: nat

definition RNN_init :: "nat \<Rightarrow> parameters \<Rightarrow> RNN" where
  "RNN_init n p =
     \<lparr>weight_ih = weight_ih p, weight_hh = weight_hh p, bias_ih = bias_ih p,
      bias_hh = bias_hh p, weight = weight p, bias = bias p, hidden_size = n\<rparr>"

text \<open>
  \<open>tanh\<close> and \<open>exp\<close> are the functions of analysis: they are not evaluated, a computed
  value keeps them as they stand.
\<close>

declare tanh_def [code del]
declare exp_def [code del]

text \<open>
  One step of \<^verbatim>\<open>self.rnn\<close>, a recurrent layer with the default \<^verbatim>\<open>tanh\<close>:
  \<open>h\<^sub>t = tanh(W\<^sub>i\<^sub>h x\<^sub>t + b\<^sub>i\<^sub>h + W\<^sub>h\<^sub>h h\<^sub>t\<^sub>-\<^sub>1 + b\<^sub>h\<^sub>h)\<close>, for an input \<open>x\<^sub>t\<close> with one feature.
\<close>

definition rnn :: "RNN \<Rightarrow> real list \<Rightarrow> real list \<Rightarrow> real list" where
  "rnn self x h =
     map (\<lambda>j. tanh (weight_ih self j * x ! 0 + bias_ih self j +
                     (\<Sum>k \<leftarrow> [0..<hidden_size self]. weight_hh self j k * h ! k) +
                     bias_hh self j))
       [0..<hidden_size self]"

text \<open>\<^verbatim>\<open>self.hidden_to_logits\<close> on one hidden state: \<open>y = W h + b\<close>, one logit.\<close>

definition hidden_to_logits :: "RNN \<Rightarrow> real list \<Rightarrow> real" where
  "hidden_to_logits self h =
     (\<Sum>k \<leftarrow> [0..<hidden_size self]. weight self k * h ! k) + bias self"

text \<open>\<^verbatim>\<open>self.activation\<close> on one element: the logistic sigmoid.\<close>

definition sigmoid :: "real \<Rightarrow> real" where
  "sigmoid v = 1 / (1 + exp (- v))"

definition activation :: "RNN \<Rightarrow> real \<Rightarrow> real" where
  "activation self v = sigmoid v"

text \<open>
  \<^verbatim>\<open>pack_padded_sequence(inputs, lengths, batch_first=True)\<close>, from torch's
  documentation: a batch that is not empty, one length per sequence, every length
  positive, the lengths sorted in decreasing order (\<^verbatim>\<open>enforce_sorted\<close> is true by
  default) and no length beyond the sequences; anything else is a \<^verbatim>\<open>RuntimeError\<close>.
  A packed sequence holds the sequences cut to their lengths; the order in which torch
  lays their elements out is left out.
\<close>

definition pack_padded_sequence ::
    "real list list list \<Rightarrow> int list \<Rightarrow> error + real list list list" where
  "pack_padded_sequence inputs lengths =
     (if length lengths \<noteq> length inputs \<or> lengths = [] then Inl RuntimeError
      else if \<exists>l \<in> set lengths. l \<le> 0 then Inl RuntimeError
      else if \<not> sorted_wrt (\<ge>) lengths then Inl RuntimeError
      else if \<exists>xs \<in> set inputs. int (length xs) < hd lengths then Inl RuntimeError
      else Inr (map (\<lambda>(xs, l). take (nat l) xs) (zip inputs lengths)))"

text \<open>The hidden states of one sequence, from the initial state \<open>h\<close>.\<close>

fun rnn_states :: "(real list \<Rightarrow> real list \<Rightarrow> real list) \<Rightarrow> real list \<Rightarrow> real list list
    \<Rightarrow> real list list" where
  "rnn_states step h [] = []"
| "rnn_states step h (x # xs) = step x h # rnn_states step (step x h) xs"

text \<open>
  \<^verbatim>\<open>pad_packed_sequence(rnn_out, batch_first=True)\<close>: every sequence is padded with
  zeros to the length of the longest.
\<close>

definition pad_packed_sequence :: "nat \<Rightarrow> real list list list \<Rightarrow> real list list list" where
  "pad_packed_sequence width seqs =
     (let max_len = foldr max (map length seqs) 0
      in map (\<lambda>hs. hs @ replicate (max_len - length hs) (replicate width 0)) seqs)"

text \<open>
  \<^verbatim>\<open>RNN.forward\<close>. The recurrent layer raises a \<^verbatim>\<open>RuntimeError\<close> when the elements
  it is given do not have \<^verbatim>\<open>input_size\<close> features, here one. Its initial hidden state
  is zero; \<^verbatim>\<open>.to(device)\<close> does not change values.
\<close>

definition forward ::
    "RNN \<Rightarrow> real list list list \<Rightarrow> int list
      \<Rightarrow> error + (real list list list \<times> real list list list)" where
  "forward self inputs lengths =
     (case pack_padded_sequence inputs lengths of
        Inl e \<Rightarrow> Inl e
      | Inr packed_inputs \<Rightarrow>
          if \<exists>xs \<in> set packed_inputs. \<exists>x \<in> set xs. length x \<noteq> 1 then Inl RuntimeError
          else
            let rnn_out = map (rnn_states (rnn self) (replicate (hidden_size self) 0)) packed_inputs;
                unpacked = pad_packed_sequence (hidden_size self) rnn_out;
                logits = map (map (\<lambda>h. [hidden_to_logits self h])) unpacked;
                predictions = map (map (map (activation self))) logits
            in Inr (logits, predictions))"


subsection \<open>DataLoader\<close>

text \<open>
  A \<^verbatim>\<open>DataLoader\<close> of torch with a batch size, from its documentation. The sampler
  gives the indices of the dataset in some order: from 0 up without \<^verbatim>\<open>shuffle\<close>, a
  random permutation (drawn from torch's own generator) with it. The indices are cut
  into batches, the last one possibly shorter. For every batch the items
  \<^verbatim>\<open>dataset[i]\<close> are fetched and collated: the arrays of the items are stacked into a
  new tensor, the features into one and the labels into another.
\<close>

definition batch_indices :: "nat \<Rightarrow> int list \<Rightarrow> int list list" where
  "batch_indices batch_size order =
     map (\<lambda>k. take batch_size (drop (k * batch_size) order))
       [0..<(length order + batch_size - 1) div batch_size]"

fun getitems :: "XORDataset \<Rightarrow> int list \<Rightarrow> error + (ndarray \<times> ndarray) list" where
  "getitems dataset [] = Inr []"
| "getitems dataset (i # rest) =
     (case getitem dataset i of
        Inl e \<Rightarrow> Inl e
      | Inr item \<Rightarrow>
          (case getitems dataset rest of
             Inl e \<Rightarrow> Inl e
           | Inr items \<Rightarrow> Inr (item # items)))"

text \<open>\<^verbatim>\<open>torch.stack\<close> on arrays of one shape: their elements, copied into a new buffer.\<close>

definition stack :: "ndarray list \<Rightarrow> ndarray comp" where
  "stack xs =
     (case xs of
        [] \<Rightarrow> raise RuntimeError
      | x # _ \<Rightarrow>
          if \<exists>y \<in> set xs. shape y \<noteq> shape x then raise RuntimeError
          else (\<lambda>s. bindE (alloc (concat (map (contents (heap s)) xs)))
                      (\<lambda>a. returnE \<lparr>base = a, offset = 0, shape = length xs # shape x\<rparr>) s))"

definition fetch :: "XORDataset \<Rightarrow> int list \<Rightarrow> (ndarray \<times> ndarray) comp" where
  "fetch dataset indices =
     bindE (liftE (getitems dataset indices)) (\<lambda>items.
     bindE (stack (map fst items)) (\<lambda>inputs.
     bindE (stack (map snd items)) (\<lambda>targets.
     returnE (inputs, targets))))"

text \<open>
  \<^verbatim>\<open>x.to(device)\<close>: the tensor itself on the CPU, a copy in the memory of the device
  when \<^verbatim>\<open>device\<close> is \<^verbatim>\<open>'cuda:0'\<close>.
\<close>

definition to_device :: "bool \<Rightarrow> ndarray \<Rightarrow> ndarray comp" where
  "to_device cuda x =
     (if cuda
      then (\<lambda>s. bindE (alloc (contents (heap s) x))
                  (\<lambda>a. returnE \<lparr>base = a, offset = 0, shape = shape x\<rparr>) s)
      else returnE x)"

text \<open>The values of a tensor with three axes, as the layers of the model read them.\<close>

definition read3 :: "ndarray \<Rightarrow> real list list list comp" where
  "read3 x =
     (case shape x of
        [B, T, F] \<Rightarrow>
          (\<lambda>s. returnE (map (\<lambda>i. map (\<lambda>t. map (at3 (heap s) x i t) [0..<F]) [0..<T]) [0..<B]) s)
      | _ \<Rightarrow> raise RuntimeError)"

subsection \<open>Accuracy\<close>

text \<open>
  \<^verbatim>\<open>(predictions > 0.5) == (targets > 0.5)\<close>, flattened, on tensors of one shape (in
  the loops below both have the shape of the batch, because the first length is the
  whole sequence; broadcasting is left out), and its mean. The comparisons are exact in
  floating point, and the mean is 1.0 exactly when every comparison holds. (Of no
  comparison at all numpy's mean is \<^verbatim>\<open>nan\<close>, which is not 1.0 either.)
\<close>

definition is_correct :: "real list list list \<Rightarrow> real list list list \<Rightarrow> error + bool list" where
  "is_correct predictions targets =
     (if map (map length) predictions \<noteq> map (map length) targets then Inl RuntimeError
      else Inr (map2 (\<lambda>p t. (1 / 2 < p) = (1 / 2 < t))
                  (concat (concat predictions)) (concat (concat targets))))"

definition mean :: "bool list \<Rightarrow> real" where
  "mean bs = real (length (filter id bs)) / real (length bs)"

subsection \<open>evaluate\<close>

text \<open>
  One turn of the loop of \<^verbatim>\<open>evaluate\<close>: the comparisons of one batch. \<^verbatim>\<open>np.append\<close>
  converts them to a numpy array, which torch refuses with a \<^verbatim>\<open>TypeError\<close> for a tensor
  in the memory of a CUDA device.
\<close>

definition evaluate_batch :: "bool \<Rightarrow> bool \<Rightarrow> RNN \<Rightarrow> XORDataset \<Rightarrow> int list \<Rightarrow> bool list comp" where
  "evaluate_batch vary_lengths cuda model dataset indices =
     bindE (fetch dataset indices) (\<lambda>(inputs, targets).
     bindE (adjust_lengths vary_lengths inputs targets) (\<lambda>lengths.
     bindE (to_device cuda inputs) (\<lambda>inputs.
     bindE (to_device cuda targets) (\<lambda>targets.
     bindE (read3 inputs) (\<lambda>xs.
     bindE (read3 targets) (\<lambda>ys.
     bindE (liftE (forward model xs lengths)) (\<lambda>(logits, predictions).
     bindE (liftE (is_correct predictions ys)) (\<lambda>c.
     if cuda then raise TypeError else returnE c))))))))"

fun evaluate_loop ::
    "bool \<Rightarrow> bool \<Rightarrow> RNN \<Rightarrow> XORDataset \<Rightarrow> int list list \<Rightarrow> bool list \<Rightarrow> bool list comp" where
  "evaluate_loop vary_lengths cuda model dataset [] correct = returnE correct"
| "evaluate_loop vary_lengths cuda model dataset (indices # rest) correct =
     bindE (evaluate_batch vary_lengths cuda model dataset indices) (\<lambda>c.
     evaluate_loop vary_lengths cuda model dataset rest (correct @ c))"

definition evaluate :: "int \<Rightarrow> bool \<Rightarrow> bool \<Rightarrow> RNN \<Rightarrow> real comp" where
  "evaluate max_bits vary_lengths cuda model =
     bindE (evaluate_dataset max_bits) (\<lambda>dataset.
     bindE (evaluate_loop vary_lengths cuda model dataset
              (batch_indices 500 (map int [0..<len dataset])) []) (\<lambda>correct.
     returnE (mean correct)))"

subsection \<open>The training loop\<close>

text \<open>
  The variables of the last code cell. \<open>valid_accuracy\<close> is unbound until the first
  evaluation. The loss, its gradient and the step of the optimizer are the library's:
  \<open>sgd\<close> below stands for \<^verbatim>\<open>loss_fn(logits, targets)\<close>, \<^verbatim>\<open>loss.backward()\<close> and
  \<^verbatim>\<open>optimizer.step()\<close>, from the model, the batch and the logits to the model with the
  new parameters, or to the error that the library raises. \<open>order\<close> gives, for every epoch,
  the order in which the sampler of \<^verbatim>\<open>train_loader\<close> yields the indices.
\<close>

record loop_state =
  model :: RNN
  step :: nat
  train_accs :: "(nat \<times> real) list"
  valid_accs :: "(nat \<times> real) list"
  valid_accuracy :: "real option"

type_synonym sgd =
  "RNN \<Rightarrow> real list list list \<Rightarrow> int list \<Rightarrow> real list list list \<Rightarrow> real list list list
    \<Rightarrow> error + RNN"

datatype flow = Continue | Break

text \<open>The body of the inner loop, for the batch with the given indices.\<close>

definition train_batch ::
    "sgd \<Rightarrow> int \<Rightarrow> bool \<Rightarrow> bool \<Rightarrow> XORDataset \<Rightarrow> loop_state \<Rightarrow> int list
      \<Rightarrow> (flow \<times> loop_state) comp" where
  "train_batch optimize max_bits vary_lengths cuda dataset st indices =
     bindE (fetch dataset indices) (\<lambda>(inputs, targets).
     bindE (adjust_lengths vary_lengths inputs targets) (\<lambda>lengths.
     bindE (to_device cuda targets) (\<lambda>targets.
     bindE (read3 inputs) (\<lambda>xs.
     bindE (read3 targets) (\<lambda>ys.
     bindE (liftE (forward (model st) xs lengths)) (\<lambda>(logits, predictions).
     bindE (liftE (optimize (model st) xs lengths logits ys)) (\<lambda>model'.
     bindE (liftE (is_correct predictions ys)) (\<lambda>correct.
       let n = step st + 1;
           st1 = st\<lparr>model := model', step := n,
                    train_accs := train_accs st @ [(n, mean correct)]\<rparr>
       in if n mod 1000 = 0
          then bindE (evaluate max_bits vary_lengths cuda model') (\<lambda>accuracy.
                 returnE (if accuracy = 1 then Break else Continue,
                          st1\<lparr>valid_accs := valid_accs st1 @ [(n, accuracy)],
                               valid_accuracy := Some accuracy\<rparr>))
          else returnE (Continue, st1)))))))))"

text \<open>\<^verbatim>\<open>for inputs, targets in train_loader\<close>, with its \<^verbatim>\<open>break\<close>.\<close>

fun train_epoch ::
    "sgd \<Rightarrow> int \<Rightarrow> bool \<Rightarrow> bool \<Rightarrow> XORDataset \<Rightarrow> int list list \<Rightarrow> loop_state
      \<Rightarrow> loop_state comp" where
  "train_epoch optimize max_bits vary_lengths cuda dataset [] st = returnE st"
| "train_epoch optimize max_bits vary_lengths cuda dataset (indices # rest) st =
     bindE (train_batch optimize max_bits vary_lengths cuda dataset st indices) (\<lambda>(fl, st').
       case fl of
         Break \<Rightarrow> returnE st'
       | Continue \<Rightarrow> train_epoch optimize max_bits vary_lengths cuda dataset rest st')"

text \<open>
  \<^verbatim>\<open>for epoch in range(1, epochs + 1)\<close>; after the inner loop,
  \<^verbatim>\<open>if valid_accuracy == 1.0: break\<close> reads a name that may still be unbound.
\<close>

fun train_epochs ::
    "sgd \<Rightarrow> int \<Rightarrow> nat \<Rightarrow> bool \<Rightarrow> bool \<Rightarrow> XORDataset \<Rightarrow> (nat \<Rightarrow> int list) \<Rightarrow> nat list
      \<Rightarrow> loop_state \<Rightarrow> loop_state comp" where
  "train_epochs optimize max_bits batch_size vary_lengths cuda dataset order [] st = returnE st"
| "train_epochs optimize max_bits batch_size vary_lengths cuda dataset order (epoch # rest) st =
     bindE (train_epoch optimize max_bits vary_lengths cuda dataset
              (batch_indices batch_size (order epoch)) st) (\<lambda>st'.
       case valid_accuracy st' of
         None \<Rightarrow> raise NameError
       | Some accuracy \<Rightarrow>
           if accuracy = 1 then returnE st'
           else train_epochs optimize max_bits batch_size vary_lengths cuda dataset order rest st')"

text \<open>
  The training loop and the notebook, from the cell that makes \<^verbatim>\<open>train_loader\<close> to the
  end of the loop, with their constants: \<^verbatim>\<open>max_bits = 50\<close>, \<^verbatim>\<open>batch_size = 8\<close>, 100000
  sequences and \<^verbatim>\<open>epochs = 5\<close>. \<open>vary_lengths\<close> is false in the source, and the
  assignment asks to set it to true. \<open>model0\<close> is the model with its initial weights.
\<close>

definition training_loop ::
    "sgd \<Rightarrow> bool \<Rightarrow> bool \<Rightarrow> (nat \<Rightarrow> int list) \<Rightarrow> RNN \<Rightarrow> XORDataset \<Rightarrow> loop_state comp" where
  "training_loop optimize vary_lengths cuda order model0 dataset =
     train_epochs optimize 50 8 vary_lengths cuda dataset order [1..<5 + 1]
       \<lparr>model = model0, step = 0, train_accs = [], valid_accs = [], valid_accuracy = None\<rparr>"

text \<open>
  The cell that prints the first batch: \<^verbatim>\<open>for inputs, targets in train_loader\<close> with a
  \<^verbatim>\<open>break\<close> at the end of its body. A loader without batches yields nothing.
\<close>

definition first_batch :: "XORDataset \<Rightarrow> int list \<Rightarrow> unit comp" where
  "first_batch dataset order0 =
     (case batch_indices 8 order0 of
        [] \<Rightarrow> returnE ()
      | indices # _ \<Rightarrow> bindE (fetch dataset indices) (\<lambda>_. returnE ()))"

text \<open>\<^verbatim>\<open>hidden_size = 4\<close>; \<open>initial\<close> are the parameters that torch draws for the model.\<close>

definition notebook ::
    "sgd \<Rightarrow> bool \<Rightarrow> bool \<Rightarrow> (nat \<Rightarrow> int list) \<Rightarrow> parameters
      \<Rightarrow> (XORDataset \<times> loop_state) comp" where
  "notebook optimize vary_lengths cuda order initial =
     bindE (XORDataset_init 100000 50) (\<lambda>dataset.
     bindE (first_batch dataset (order 0)) (\<lambda>_.
     bindE (training_loop optimize vary_lengths cuda order (RNN_init 4 initial) dataset) (\<lambda>st.
     returnE (dataset, st))))"

subsection \<open>Frames\<close>

text \<open>
  \<open>frames n c Q\<close>: from a state with at least \<open>n\<close> buffers, the computation \<open>c\<close> leaves the
  buffers below \<open>n\<close> as they are, whether it returns or raises, never removes a buffer,
  and returns only values that satisfy \<open>Q\<close>.
\<close>

definition frames :: "nat \<Rightarrow> 'a comp \<Rightarrow> ('a \<Rightarrow> bool) \<Rightarrow> bool" where
  "frames n c Q \<longleftrightarrow>
     (\<forall>s r s'. n \<le> length (heap s) \<longrightarrow> c s = (r, s') \<longrightarrow>
        length (heap s) \<le> length (heap s') \<and>
        (\<forall>a < n. heap s' ! a = heap s ! a) \<and>
        (\<forall>x. r = Inr x \<longrightarrow> Q x))"

section \<open>Proofs\<close>

subsection \<open>Rows of a flat buffer and running sums\<close>

lemma length_cumsum_from: "length (cumsum_from acc xs) = length xs"
  by (induction xs arbitrary: acc) simp_all

lemma cumsum_from_nth:
  "t < length xs \<Longrightarrow> cumsum_from acc xs ! t = acc + sum_list (take (Suc t) xs)"
proof (induction xs arbitrary: acc t)
  case Nil
  then show ?case by simp
next
  case (Cons x xs)
  show ?case
  proof (cases t)
    case 0
    then show ?thesis by simp
  next
    case (Suc k)
    with Cons.prems have "k < length xs" by simp
    from Cons.IH [OF this, of "acc + x"] Suc show ?thesis by simp
  qed
qed

lemma length_concat_rows:
  "(\<And>i. i < N \<Longrightarrow> length (f i) = T) \<Longrightarrow> length (concat (map f [0..<N])) = N * T"
  by (induction N) simp_all

lemma flat_index_less: "i < N \<Longrightarrow> t < T \<Longrightarrow> i * T + t < N * (T::nat)"
proof -
  assume a: "i < N" "t < T"
  then have "i * T + t < Suc i * T" by simp
  also from a have "\<dots> \<le> N * T" by (intro mult_le_mono1) simp
  finally show ?thesis .
qed

lemma concat_rows_nth:
  assumes len: "\<And>i. i < N \<Longrightarrow> length (f i) = T"
    and "i < N" "t < T"
  shows "concat (map f [0..<N]) ! (i * T + t) = f i ! t"
  using assms
proof (induction N)
  case 0
  then show ?case by simp
next
  case (Suc N)
  have l: "length (concat (map f [0..<N])) = N * T"
    using Suc.prems(1) by (intro length_concat_rows) simp
  show ?case
  proof (cases "i < N")
    case True
    then have "i * T + t < N * T" using Suc.prems(3) by (rule flat_index_less)
    moreover have "concat (map f [0..<N]) ! (i * T + t) = f i ! t"
      using Suc.IH [OF _ True Suc.prems(3)] Suc.prems(1) by simp
    ultimately show ?thesis by (simp add: nth_append l)
  next
    case False
    with Suc.prems(2) have "i = N" by simp
    then show ?thesis by (simp add: nth_append l)
  qed
qed

lemma row_nth:
  "i < N \<Longrightarrow> t < T \<Longrightarrow> length xs = N * T \<Longrightarrow> row T xs i ! t = xs ! (i * T + t)"
  using flat_index_less [of i N t T] by (simp add: row_def)

lemma length_row:
  "i < N \<Longrightarrow> length xs = N * T \<Longrightarrow> length (row T xs i) = T"
proof -
  assume a: "i < N" "length xs = N * T"
  then have "Suc i * T \<le> N * T" by (intro mult_le_mono1) simp
  with a show ?thesis by (simp add: row_def)
qed

lemma length_cumsum_axis1:
  "length xs = N * T \<Longrightarrow> length (cumsum_axis1 N T xs) = N * T"
  unfolding cumsum_axis1_def
  by (rule length_concat_rows) (simp add: cumsum_def length_cumsum_from length_row)

lemma cumsum_axis1_nth:
  assumes "length xs = N * T" "i < N" "t < T"
  shows "cumsum_axis1 N T xs ! (i * T + t) = sum_list (take (Suc t) (row T xs i))"
proof -
  have "cumsum_axis1 N T xs ! (i * T + t) = cumsum (row T xs i) ! t"
    unfolding cumsum_axis1_def using assms
    by (intro concat_rows_nth) (simp_all add: cumsum_def length_cumsum_from length_row)
  also have "\<dots> = sum_list (take (Suc t) (row T xs i))"
    using assms by (simp add: cumsum_def cumsum_from_nth length_row)
  finally show ?thesis .
qed


subsection \<open>The generated data\<close>

lemma randint_bits:
  assumes "randint 2 None [N, T] s = (r, s')"
  shows "if N < 0 \<or> T < 0 then r = Inl ValueError \<and> s' = s
         else \<exists>bits. r = Inr bits \<and> length bits = nat N * nat T \<and>
                (\<forall>b \<in> set bits. b = 0 \<or> b = 1) \<and> heap s' = heap s"
proof (cases "N < 0 \<or> T < 0")
  case True
  with assms show ?thesis by (auto simp: randint_def raise_def)
next
  case False
  then have nn: "0 \<le> N" "0 \<le> T" by simp_all
  show ?thesis
  proof (cases "N * T = 0")
    case True
    with nn assms show ?thesis by (auto simp: randint_def returnE_def)
  next
    case False
    with nn assms show ?thesis
      by (auto simp: randint_def returnE_def bindE_def draw_def nat_mult_distrib)
  qed
qed

lemma get_random_bits_parity_negative:
  assumes "N < 0 \<or> T < 0"
  shows "get_random_bits_parity N T s = (Inl ValueError, s)"
proof -
  obtain r s' where rs: "randint 2 None [N, T] s = (r, s')" by (cases "randint 2 None [N, T] s")
  from randint_bits [OF rs] assms have "r = Inl ValueError" "s' = s" by simp_all
  with rs show ?thesis by (simp add: get_random_bits_parity_def bindE_def)
qed

lemma get_random_bits_parity_result:
  assumes "0 \<le> N" "0 \<le> T"
  shows "\<exists>bits s'. length bits = nat N * nat T \<and> (\<forall>b \<in> set bits. b = 0 \<or> b = 1) \<and>
           get_random_bits_parity N T s =
             (Inr (\<lparr>base = length (heap s), offset = 0, shape = [nat N, nat T]\<rparr>,
                   \<lparr>base = Suc (length (heap s)), offset = 0, shape = [nat N, nat T]\<rparr>), s') \<and>
           heap s' = heap s @ [map of_int bits,
              map of_bool (map (\<lambda>c. c mod 2 \<noteq> 0) (cumsum_axis1 (nat N) (nat T) bits))]"
proof -
  obtain r s1 where rs: "randint 2 None [N, T] s = (r, s1)" by (cases "randint 2 None [N, T] s")
  from randint_bits [OF rs] assms obtain bits where b: "r = Inr bits"
    "length bits = nat N * nat T" "\<forall>b \<in> set bits. b = 0 \<or> b = 1" "heap s1 = heap s"
    by auto
  from rs b show ?thesis
    by (auto simp: get_random_bits_parity_def bindE_def alloc_def returnE_def Let_def)
qed


lemma foldl_xor_bit:
  "\<forall>b \<in> set bs. b = 0 \<or> b = (1::int) \<Longrightarrow>
   foldl xor_bit (of_bool p) (map of_int bs) = of_bool (p \<noteq> (sum_list bs mod 2 \<noteq> 0))"
proof (induction bs arbitrary: p)
  case Nil
  then show ?case by simp
next
  case (Cons b bs)
  from Cons.prems have b: "b = 0 \<or> b = 1" and rest: "\<forall>b \<in> set bs. b = 0 \<or> b = 1"
    by simp_all
  have step: "xor_bit (of_bool p) (of_int b) = of_bool (p \<noteq> (b \<noteq> 0))"
    using b by (auto simp: xor_bit_def)
  have par: "((b + sum_list bs) mod 2 \<noteq> 0) = ((b \<noteq> 0) \<noteq> (sum_list bs mod 2 \<noteq> 0))"
    using b by presburger
  have "foldl xor_bit (of_bool p) (map of_int (b # bs)) =
      foldl xor_bit (of_bool (p \<noteq> (b \<noteq> 0))) (map of_int bs)"
    by (simp add: step)
  also have "\<dots> = of_bool ((p \<noteq> (b \<noteq> 0)) \<noteq> (sum_list bs mod 2 \<noteq> 0))"
    by (rule Cons.IH [OF rest])
  also have "((p \<noteq> (b \<noteq> 0)) \<noteq> (sum_list bs mod 2 \<noteq> 0)) =
      (p \<noteq> (sum_list (b # bs) mod 2 \<noteq> 0))"
    unfolding sum_list.Cons par by auto
  finally show ?case .
qed

lemma cumulative_xor_bits:
  "\<forall>b \<in> set bs. b = 0 \<or> b = (1::int) \<Longrightarrow>
   cumulative_xor (map of_int bs) = of_bool (sum_list bs mod 2 \<noteq> 0)"
  using foldl_xor_bit [of bs False] by (simp add: cumulative_xor_def)

lemma sum_of_int_nth:
  "(\<Sum>k<length bs. (of_int (bs ! k) :: real)) = of_int (sum_list bs)"
  by (simp add: sum_list_sum_nth atLeast0LessThan)

text \<open>
  Claim C1. For \<open>num_sequences \<ge> 1\<close> and \<open>num_bits \<ge> 1\<close>, from every state,
  \<open>get_random_bits_parity\<close> returns a pair of arrays in which \<open>parity[i][t]\<close> is the
  cumulative XOR of \<open>bit_sequences[i][0..t]\<close>, which is also the running sum of these
  bits modulo 2.
\<close>

theorem parity_is_cumulative_xor:
  assumes "1 \<le> n_sequences" "1 \<le> n_bits"
  shows "\<exists>bit_sequences parity s'.
           get_random_bits_parity n_sequences n_bits s = (Inr (bit_sequences, parity), s') \<and>
           (\<forall>i < nat n_sequences. \<forall>t < nat n_bits.
              at2 (heap s') parity i t =
                cumulative_xor (map (at2 (heap s') bit_sequences i) [0..<Suc t]) \<and>
              at2 (heap s') parity i t =
                of_int (\<lfloor>\<Sum>k<Suc t. at2 (heap s') bit_sequences i k\<rfloor> mod 2))"
proof -
  define N T where "N = nat n_sequences" and "T = nat n_bits"
  from assms have nn: "0 \<le> n_sequences" "0 \<le> n_bits" by simp_all
  from get_random_bits_parity_result [OF nn, of s]
  obtain bits s' where len: "length bits = N * T"
    and bin: "\<forall>b \<in> set bits. b = 0 \<or> b = 1"
    and res: "get_random_bits_parity n_sequences n_bits s =
             (Inr (\<lparr>base = length (heap s), offset = 0, shape = [N, T]\<rparr>,
                   \<lparr>base = Suc (length (heap s)), offset = 0, shape = [N, T]\<rparr>), s')"
    and hp: "heap s' = heap s @ [map of_int bits,
              map of_bool (map (\<lambda>c. c mod 2 \<noteq> 0) (cumsum_axis1 N T bits))]"
    unfolding N_def T_def by blast
  let ?B = "\<lparr>base = length (heap s), offset = 0, shape = [N, T]\<rparr>"
  let ?P = "\<lparr>base = Suc (length (heap s)), offset = 0, shape = [N, T]\<rparr>"
  have "at2 (heap s') ?P i t = cumulative_xor (map (at2 (heap s') ?B i) [0..<Suc t]) \<and>
        at2 (heap s') ?P i t = of_int (\<lfloor>\<Sum>k<Suc t. at2 (heap s') ?B i k\<rfloor> mod 2)"
    if it: "i < N" "t < T" for i t
  proof -
    let ?r = "take (Suc t) (row T bits i)"
    have idx: "i * T + t < N * T" using it by (rule flat_index_less)
    have rbin: "\<forall>b \<in> set ?r. b = 0 \<or> b = 1"
      using bin by (auto simp: row_def dest!: in_set_takeD in_set_dropD)
    have lr: "length ?r = Suc t" using it len by (simp add: length_row [of i N])
    have par: "at2 (heap s') ?P i t = of_bool (sum_list ?r mod 2 \<noteq> 0)"
      using idx len it
      by (simp add: at2_def hp nth_append length_cumsum_axis1 cumsum_axis1_nth)
    have bitk: "at2 (heap s') ?B i k = of_int (?r ! k)" if "k < Suc t" for k
    proof -
      from that it have kT: "k < T" by simp
      have "i * T + k < N * T" using it(1) kT by (rule flat_index_less)
      then show ?thesis
        using that len it kT by (simp add: at2_def hp nth_append row_nth [of i N])
    qed
    have "map (at2 (heap s') ?B i) [0..<Suc t] = map of_int ?r"
      by (rule nth_equalityI) (use lr bitk in \<open>simp_all del: upt_Suc take_Suc_Cons\<close>)
    then have x: "cumulative_xor (map (at2 (heap s') ?B i) [0..<Suc t]) =
        of_bool (sum_list ?r mod 2 \<noteq> 0)"
      using cumulative_xor_bits [OF rbin] by simp
    have "(\<Sum>k<Suc t. at2 (heap s') ?B i k) = (\<Sum>k<length ?r. of_int (?r ! k))"
      unfolding lr by (rule sum.cong) (use bitk in simp_all)
    also have "\<dots> = of_int (sum_list ?r)" by (rule sum_of_int_nth)
    finally have "of_int (\<lfloor>\<Sum>k<Suc t. at2 (heap s') ?B i k\<rfloor> mod 2) =
        (of_int (sum_list ?r mod 2) :: real)" by simp
    also have "\<dots> = of_bool (sum_list ?r mod 2 \<noteq> 0)"
    proof -
      have "sum_list ?r mod 2 = 0 \<or> sum_list ?r mod 2 = 1" by presburger
      then show ?thesis by auto
    qed
    finally show ?thesis using par x by simp
  qed
  with res show ?thesis unfolding N_def T_def by blast
qed


theorem parity_is_cumulative_xor_witness:
  "\<exists>bit_sequences parity s'.
     get_random_bits_parity 1 2 \<lparr>heap = [], gen = (\<lambda>k. k)\<rparr> = (Inr (bit_sequences, parity), s') \<and>
     contents (heap s') bit_sequences = [0, 1] \<and>
     contents (heap s') parity = [0, 1] \<and>
     at2 (heap s') parity 0 1 = cumulative_xor (map (at2 (heap s') bit_sequences 0) [0..<Suc 1])"
proof -
  have run: "get_random_bits_parity 1 2 \<lparr>heap = [], gen = (\<lambda>k. k)\<rparr> =
      (Inr (\<lparr>base = 0, offset = 0, shape = [1, 2]\<rparr>, \<lparr>base = 1, offset = 0, shape = [1, 2]\<rparr>),
       \<lparr>heap = [[0, 1], [0, 1]], gen = (\<lambda>k. 2 + k)\<rparr>)"
    by (simp add: get_random_bits_parity_def randint_def bindE_def returnE_def draw_def
        alloc_def cumsum_axis1_def cumsum_def row_def upt_rec [of 0] numeral_2_eq_2)
  from parity_is_cumulative_xor [of 1 2 "\<lparr>heap = [], gen = (\<lambda>k. k)\<rparr>"]
  obtain b p s' where
    "get_random_bits_parity 1 2 \<lparr>heap = [], gen = (\<lambda>k. k)\<rparr> = (Inr (b, p), s')"
    "\<forall>i < nat 1. \<forall>t < nat 2. at2 (heap s') p i t =
        cumulative_xor (map (at2 (heap s') b i) [0..<Suc t])"
    by auto
  with run show ?thesis by (auto simp: contents_def)
qed

text \<open>
  Claim C3. Whatever \<open>num_sequences\<close> and \<open>num_bits\<close> are, every element of the array
  \<open>bit_sequences\<close> that \<open>get_random_bits_parity\<close> returns is 0 or 1.
\<close>

theorem bit_sequences_binary:
  assumes "get_random_bits_parity n_sequences n_bits s = (Inr (bit_sequences, parity), s')"
  shows "\<forall>x \<in> set (contents (heap s') bit_sequences). x = 0 \<or> x = 1"
proof (cases "n_sequences < 0 \<or> n_bits < 0")
  case True
  from get_random_bits_parity_negative [OF this, of s] assms show ?thesis by simp
next
  case False
  then have nn: "0 \<le> n_sequences" "0 \<le> n_bits" by simp_all
  from get_random_bits_parity_result [OF nn, of s] assms
  obtain bits where "\<forall>b \<in> set bits. b = 0 \<or> b = 1"
    "bit_sequences = \<lparr>base = length (heap s), offset = 0, shape = [nat n_sequences, nat n_bits]\<rparr>"
    "heap s' = heap s @ [map of_int bits,
        map of_bool (map (\<lambda>c. c mod 2 \<noteq> 0) (cumsum_axis1 (nat n_sequences) (nat n_bits) bits))]"
    by auto
  then have "set (contents (heap s') bit_sequences) \<subseteq> of_int ` set bits"
    and "\<forall>b \<in> set bits. b = 0 \<or> b = 1"
    by (auto simp: contents_def nth_append dest!: in_set_takeD)
  then show ?thesis by fastforce
qed

theorem bit_sequences_binary_witness:
  "fst (get_random_bits_parity 2 2 \<lparr>heap = [], gen = (\<lambda>k. if k = 2 then 0 else 1)\<rparr>) =
     Inr (\<lparr>base = 0, offset = 0, shape = [2, 2]\<rparr>, \<lparr>base = 1, offset = 0, shape = [2, 2]\<rparr>) \<and>
   heap (snd (get_random_bits_parity 2 2 \<lparr>heap = [], gen = (\<lambda>k. if k = 2 then 0 else 1)\<rparr>)) =
     [[1, 1, 0, 1], [1, 0, 0, 1]] \<and>
   set (contents [[1, 1, 0, 1], [1, 0, 0, 1]] \<lparr>base = 0, offset = 0, shape = [2, 2]\<rparr>)
     \<subseteq> {0, 1}"
proof -
  obtain r s' where run: "get_random_bits_parity 2 2 \<lparr>heap = [], gen = (\<lambda>k. if k = 2 then 0 else 1)\<rparr> = (r, s')"
    by (cases "get_random_bits_parity 2 2 \<lparr>heap = [], gen = (\<lambda>k. if k = 2 then 0 else 1)\<rparr>")
  have r: "fst (get_random_bits_parity 2 2 \<lparr>heap = [], gen = (\<lambda>k. if k = 2 then 0 else 1)\<rparr>) =
     Inr (\<lparr>base = 0, offset = 0, shape = [2, 2]\<rparr>, \<lparr>base = 1, offset = 0, shape = [2, 2]\<rparr>)"
    by code_simp
  have h: "heap (snd (get_random_bits_parity 2 2 \<lparr>heap = [], gen = (\<lambda>k. if k = 2 then 0 else 1)\<rparr>)) =
     [[1, 1, 0, 1], [1, 0, 0, 1]]"
    by code_simp
  from r run have "get_random_bits_parity 2 2 \<lparr>heap = [], gen = (\<lambda>k. if k = 2 then 0 else 1)\<rparr> =
     (Inr (\<lparr>base = 0, offset = 0, shape = [2, 2]\<rparr>, \<lparr>base = 1, offset = 0, shape = [2, 2]\<rparr>), s')"
    by simp
  from bit_sequences_binary [OF this] r h run show ?thesis by auto
qed

subsection \<open>Shapes\<close>

lemma XORDataset_init_result:
  assumes "XORDataset_init n m s = (Inr ds, s')"
  shows "0 \<le> n \<and> 0 \<le> m \<and>
         (\<exists>b p. get_random_bits_parity n m s = (Inr (b, p), s') \<and>
            features ds = expand_dims_last b \<and> labels ds = expand_dims_last p) \<and>
         num_sequences ds = n \<and> num_bits ds = m \<and>
         features ds = \<lparr>base = length (heap s), offset = 0, shape = [nat n, nat m, 1]\<rparr> \<and>
         labels ds = \<lparr>base = Suc (length (heap s)), offset = 0, shape = [nat n, nat m, 1]\<rparr> \<and>
         length (heap s') = length (heap s) + 2 \<and>
         length (heap s' ! length (heap s)) = nat n * nat m \<and>
         length (heap s' ! Suc (length (heap s))) = nat n * nat m \<and>
         (\<forall>a < length (heap s). heap s' ! a = heap s ! a)"
proof (cases "n < 0 \<or> m < 0")
  case True
  from get_random_bits_parity_negative [OF this, of s] assms show ?thesis
    by (simp add: XORDataset_init_def bindE_def)
next
  case False
  then have nn: "0 \<le> n" "0 \<le> m" by simp_all
  from get_random_bits_parity_result [OF nn, of s]
  obtain bits s1 where len: "length bits = nat n * nat m"
    and res: "get_random_bits_parity n m s =
             (Inr (\<lparr>base = length (heap s), offset = 0, shape = [nat n, nat m]\<rparr>,
                   \<lparr>base = Suc (length (heap s)), offset = 0, shape = [nat n, nat m]\<rparr>), s1)"
    and hp: "heap s1 = heap s @ [map of_int bits,
              map of_bool (map (\<lambda>c. c mod 2 \<noteq> 0) (cumsum_axis1 (nat n) (nat m) bits))]"
    by blast
  from assms res have s1: "s1 = s'" and ds: "ds = \<lparr>num_sequences = n, num_bits = m,
      features = expand_dims_last \<lparr>base = length (heap s), offset = 0, shape = [nat n, nat m]\<rparr>,
      labels = expand_dims_last \<lparr>base = Suc (length (heap s)), offset = 0, shape = [nat n, nat m]\<rparr>\<rparr>"
    by (simp_all add: XORDataset_init_def bindE_def returnE_def)
  show ?thesis
    using nn res len hp unfolding s1 ds
    by (simp add: expand_dims_last_def nth_append length_cumsum_axis1)
qed

lemma XORDataset_init_total:
  assumes "0 \<le> n" "0 \<le> m"
  shows "\<exists>ds s'. XORDataset_init n m s = (Inr ds, s')"
proof -
  from get_random_bits_parity_result [OF assms, of s]
  obtain b p s1 where "get_random_bits_parity n m s = (Inr (b, p), s1)" by blast
  then show ?thesis by (simp add: XORDataset_init_def bindE_def returnE_def)
qed

lemma index_axis0_shape:
  "index_axis0 x index = Inr y \<Longrightarrow> shape x = n # rest \<Longrightarrow>
   shape y = rest \<and> base y = base x \<and>
   (\<exists>j < n. offset y = offset x + j * prod_list rest)"
  by (auto simp: index_axis0_def Let_def split: if_splits intro: exI [of _ "nat (index + int n)"] exI [of _ "nat index"])

lemma length_contents:
  "offset x + prod_list (shape x) \<le> length (h ! base x) \<Longrightarrow>
   length (contents h x) = prod_list (shape x)"
  by (simp add: contents_def)

text \<open>
  Claim C2. The two arrays that \<open>get_random_bits_parity\<close> returns have the shape
  \<open>[num_sequences, num_bits]\<close> and that many elements; in a constructed \<open>XORDataset\<close>,
  \<open>features\<close> and \<open>labels\<close> have the shape \<open>[num_sequences, num_bits, 1]\<close>; and every item
  of \<open>__getitem__\<close> pairs a sequence and a label sequence of the shape \<open>[num_bits, 1]\<close>,
  each with \<open>num_bits\<close> elements. The construction succeeds for all sizes that are not
  negative.
\<close>

theorem shapes_consistent:
  "(\<forall>b p s1. get_random_bits_parity n m s = (Inr (b, p), s1) \<longrightarrow>
      shape b = [nat n, nat m] \<and> shape p = [nat n, nat m] \<and>
      length (contents (heap s1) b) = nat n * nat m \<and>
      length (contents (heap s1) p) = nat n * nat m) \<and>
   (\<forall>ds s'. XORDataset_init n m s = (Inr ds, s') \<longrightarrow>
      shape (features ds) = [nat n, nat m, 1] \<and> shape (labels ds) = [nat n, nat m, 1] \<and>
      (\<forall>index x y. getitem ds index = Inr (x, y) \<longrightarrow>
         shape x = [nat m, 1] \<and> shape y = [nat m, 1] \<and>
         length (contents (heap s') x) = nat m \<and> length (contents (heap s') y) = nat m)) \<and>
   (0 \<le> n \<and> 0 \<le> m \<longrightarrow> (\<exists>ds s'. XORDataset_init n m s = (Inr ds, s')))"
proof (intro conjI allI impI)
  fix b p s1
  assume run: "get_random_bits_parity n m s = (Inr (b, p), s1)"
  have nn: "0 \<le> n" "0 \<le> m"
    using get_random_bits_parity_negative [of n m s] run by (auto simp: not_less [symmetric])
  from get_random_bits_parity_result [OF nn, of s] run
  obtain bits where len: "length bits = nat n * nat m"
    and b: "b = \<lparr>base = length (heap s), offset = 0, shape = [nat n, nat m]\<rparr>"
    and p: "p = \<lparr>base = Suc (length (heap s)), offset = 0, shape = [nat n, nat m]\<rparr>"
    and hp: "heap s1 = heap s @ [map of_int bits,
              map of_bool (map (\<lambda>c. c mod 2 \<noteq> 0) (cumsum_axis1 (nat n) (nat m) bits))]"
    by auto
  show "shape b = [nat n, nat m]" "shape p = [nat n, nat m]" by (simp_all add: b p)
  show "length (contents (heap s1) b) = nat n * nat m"
    by (simp add: contents_def b hp nth_append len)
  show "length (contents (heap s1) p) = nat n * nat m"
    by (simp add: contents_def p hp nth_append len length_cumsum_axis1)
next
  fix ds s'
  assume init: "XORDataset_init n m s = (Inr ds, s')"
  note r = XORDataset_init_result [OF init]
  show "shape (features ds) = [nat n, nat m, 1]" "shape (labels ds) = [nat n, nat m, 1]"
    using r by simp_all
  fix index x y
  assume "getitem ds index = Inr (x, y)"
  then have x: "index_axis0 (features ds) index = Inr x"
    and y: "index_axis0 (labels ds) index = Inr y"
    by (auto simp: getitem_def split: sum.splits if_splits)
  from index_axis0_shape [OF x, of "nat n" "[nat m, 1]"] r
  obtain j where j: "j < nat n" "shape x = [nat m, 1]" "base x = length (heap s)"
    "offset x = j * nat m" by auto
  from index_axis0_shape [OF y, of "nat n" "[nat m, 1]"] r
  obtain k where k: "k < nat n" "shape y = [nat m, 1]" "base y = Suc (length (heap s))"
    "offset y = k * nat m" by auto
  show "shape x = [nat m, 1]" "shape y = [nat m, 1]" by fact+
  have "Suc j * nat m \<le> nat n * nat m" using j(1) by (intro mult_le_mono1) simp
  moreover have "length (heap s' ! base x) = nat n * nat m" using r j by simp
  ultimately have "offset x + prod_list (shape x) \<le> length (heap s' ! base x)"
    using j by simp
  from length_contents [OF this] j show "length (contents (heap s') x) = nat m" by simp
  have "Suc k * nat m \<le> nat n * nat m" using k(1) by (intro mult_le_mono1) simp
  moreover have "length (heap s' ! base y) = nat n * nat m" using r k by simp
  ultimately have "offset y + prod_list (shape y) \<le> length (heap s' ! base y)"
    using k by simp
  from length_contents [OF this] k show "length (contents (heap s') y) = nat m" by simp
next
  assume "0 \<le> n \<and> 0 \<le> m"
  then show "\<exists>ds s'. XORDataset_init n m s = (Inr ds, s')"
    using XORDataset_init_total by blast
qed


theorem shapes_consistent_witness:
  "\<exists>ds s'. XORDataset_init 2 3 \<lparr>heap = [], gen = (\<lambda>k. k)\<rparr> = (Inr ds, s') \<and>
     shape (features ds) = [2, 3, 1] \<and> shape (labels ds) = [2, 3, 1] \<and>
     (\<exists>x y. getitem ds 1 = Inr (x, y) \<and> shape x = [3, 1] \<and> shape y = [3, 1] \<and>
        length (contents (heap s') x) = 3 \<and> length (contents (heap s') y) = 3)"
proof -
  let ?s = "\<lparr>heap = [], gen = (\<lambda>k. k)\<rparr>"
  note sc = shapes_consistent [of 2 3 ?s]
  from sc obtain ds s' where init: "XORDataset_init 2 3 ?s = (Inr ds, s')" by auto
  with sc have sh: "shape (features ds) = [2, 3, 1]" "shape (labels ds) = [2, 3, 1]"
    by auto
  then obtain x y where item: "getitem ds 1 = Inr (x, y)"
    by (auto simp: getitem_def index_axis0_def)
  with sc init have "shape x = [3, 1] \<and> shape y = [3, 1] \<and>
      length (contents (heap s') x) = 3 \<and> length (contents (heap s') y) = 3"
    by (metis nat_numeral)
  with init sh item show ?thesis by blast
qed

subsection \<open>Zeroing writes\<close>

lemma zeroed_refl: "zeroed h h"
  by (simp add: zeroed_def)

lemma zeroed_trans: "zeroed h1 h2 \<Longrightarrow> zeroed h2 h3 \<Longrightarrow> zeroed h1 h3"
  unfolding zeroed_def by (metis (no_types, lifting))

lemma zeroed_valid: "zeroed h h' \<Longrightarrow> valid h x \<Longrightarrow> valid h' x"
  by (simp add: zeroed_def valid_def)

lemma length_zero_range: "length (zero_range lo n buf) = length buf"
  by (simp add: zero_range_def)

lemma zero_range_nth:
  "j < length buf \<Longrightarrow> zero_range lo n buf ! j = (if lo \<le> j \<and> j < lo + n then 0 else buf ! j)"
  by (simp add: zero_range_def)

lemma zeroed_update:
  "zeroed h (h[a := zero_range lo n (h ! a)])"
proof -
  have "length (h[a := zero_range lo n (h ! a)] ! b) = length (h ! b) \<and>
        (\<forall>j < length (h ! b). h[a := zero_range lo n (h ! a)] ! b ! j = 0 \<or>
            h[a := zero_range lo n (h ! a)] ! b ! j = h ! b ! j)"
    if "b < length h" for b
  proof (cases "a = b")
    case True
    with that show ?thesis by (simp add: length_zero_range zero_range_nth)
  next
    case False
    then show ?thesis by simp
  qed
  then show ?thesis by (simp add: zeroed_def)
qed

lemma cell_index_less:
  assumes "i < B" "k < T" "f < F"
  shows "(i * T + k) * F + f < B * T * (F::nat)"
proof -
  have "i * T + k < B * T" using assms(1,2) by (rule flat_index_less)
  then show ?thesis using assms(3) by (rule flat_index_less)
qed

lemma zeroed_at3:
  assumes "zeroed h h'" "valid h x" "shape x = [B, T, F]" "i < B" "k < T" "f < F"
    and "at3 h x i k f = 0"
  shows "at3 h' x i k f = 0"
proof -
  have "(i * T + k) * F + f < B * T * F" using assms(4-6) by (rule cell_index_less)
  with assms(2,3) have "base x < length h"
    "offset x + (i * T + k) * F + f < length (h ! base x)"
    by (simp_all add: valid_def)
  with assms(1,3,7) show ?thesis
    unfolding zeroed_def at3_def by (metis add.assoc nth_Cons_0 nth_Cons_Suc One_nat_def numeral_2_eq_2)
qed

lemma assign_tail_zero_ok:
  assumes "shape x = [B, T, F]" "valid (heap s) x" "i < B" "0 \<le> l"
  shows "\<exists>s'. assign_tail_zero x i l s = (Inr (), s') \<and> gen s' = gen s \<and>
           zeroed (heap s) (heap s') \<and>
           (\<forall>k < T. \<forall>f < F. l \<le> int k \<longrightarrow> at3 (heap s') x i k f = 0)"
proof -
  define start where "start = min (nat l) T"
  define lo where "lo = offset x + (i * T + start) * F"
  define n where "n = (T - start) * F"
  define h' where "h' = (heap s)[base x := zero_range lo n (heap s ! base x)]"
  have run: "assign_tail_zero x i l s = (Inr (), s\<lparr>heap := h'\<rparr>)"
    using assms(1,3,4) by (simp add: assign_tail_zero_def Let_def h'_def lo_def n_def start_def)
  have z: "zeroed (heap s) h'" unfolding h'_def by (rule zeroed_update)
  have cells: "at3 h' x i k f = 0" if "k < T" "f < F" "l \<le> int k" for k f
  proof -
    from that assms(4) have sk: "start \<le> k" by (simp add: start_def)
    have "(i * T + k) * F + f < B * T * F" using assms(3) that(1,2) by (rule cell_index_less)
    with assms(1,2) have b: "base x < length (heap s)"
      and j: "offset x + (i * T + k) * F + f < length (heap s ! base x)"
      by (simp_all add: valid_def)
    have lo: "lo \<le> offset x + (i * T + k) * F + f"
      using sk by (simp add: lo_def mult_le_mono1 trans_le_add1)
    have "(i * T + k) * F + f < Suc (i * T + k) * F" using that(2) by simp
    also have "\<dots> \<le> (i * T + T) * F" using that(1) by (intro mult_le_mono1) simp
    also have "\<dots> = (i * T + start) * F + (T - start) * F"
      using sk that(1) by (simp add: add_mult_distrib [symmetric])
    finally have hi: "offset x + (i * T + k) * F + f < lo + n"
      by (simp add: lo_def n_def)
    show ?thesis
      using b j lo hi assms(1)
      by (simp add: at3_def h'_def zero_range_nth add.assoc)
  qed
  from run z cells show ?thesis by auto
qed


lemma chop_ok:
  assumes sx: "shape inputs = [B, T, F]" and sy: "shape targets = [B, T, G]"
  shows "set idx \<subseteq> {..<B} \<Longrightarrow> \<forall>i \<in> set idx. 0 \<le> lengths ! i \<Longrightarrow>
         valid (heap s) inputs \<Longrightarrow> valid (heap s) targets \<Longrightarrow>
         \<exists>s'. chop idx lengths inputs targets s = (Inr (), s') \<and> gen s' = gen s \<and>
           zeroed (heap s) (heap s') \<and>
           (\<forall>i \<in> set idx. \<forall>k < T. lengths ! i \<le> int k \<longrightarrow>
              (\<forall>f < F. at3 (heap s') inputs i k f = 0) \<and>
              (\<forall>f < G. at3 (heap s') targets i k f = 0))"
proof (induction idx arbitrary: s)
  case Nil
  show ?case by (simp add: returnE_def zeroed_refl)
next
  case (Cons i idx)
  from Cons.prems have i: "i < B" "0 \<le> lengths ! i" by simp_all
  from assign_tail_zero_ok [OF sx Cons.prems(3) i]
  obtain s1 where 1: "assign_tail_zero inputs i (lengths ! i) s = (Inr (), s1)"
    "gen s1 = gen s" "zeroed (heap s) (heap s1)"
    "\<forall>k < T. \<forall>f < F. lengths ! i \<le> int k \<longrightarrow> at3 (heap s1) inputs i k f = 0"
    by blast
  have vx1: "valid (heap s1) inputs" and vy1: "valid (heap s1) targets"
    using 1(3) Cons.prems(3,4) by (auto intro: zeroed_valid)
  from assign_tail_zero_ok [OF sy vy1 i]
  obtain s2 where 2: "assign_tail_zero targets i (lengths ! i) s1 = (Inr (), s2)"
    "gen s2 = gen s1" "zeroed (heap s1) (heap s2)"
    "\<forall>k < T. \<forall>f < G. lengths ! i \<le> int k \<longrightarrow> at3 (heap s2) targets i k f = 0"
    by blast
  have vx2: "valid (heap s2) inputs" and vy2: "valid (heap s2) targets"
    using 2(3) vx1 vy1 by (auto intro: zeroed_valid)
  from Cons.prems have "set idx \<subseteq> {..<B}" "\<forall>i \<in> set idx. 0 \<le> lengths ! i" by simp_all
  from Cons.IH [OF this vx2 vy2]
  obtain s' where 3: "chop idx lengths inputs targets s2 = (Inr (), s')"
    "gen s' = gen s2" "zeroed (heap s2) (heap s')"
    "\<forall>i \<in> set idx. \<forall>k < T. lengths ! i \<le> int k \<longrightarrow>
        (\<forall>f < F. at3 (heap s') inputs i k f = 0) \<and>
        (\<forall>f < G. at3 (heap s') targets i k f = 0)"
    by blast
  have run: "chop (i # idx) lengths inputs targets s = (Inr (), s')"
    using 1(1) 2(1) 3(1) by (simp add: bindE_def)
  have z: "zeroed (heap s) (heap s')"
    using 1(3) 2(3) 3(3) by (blast intro: zeroed_trans)
  have z1: "zeroed (heap s1) (heap s')" using 2(3) 3(3) by (rule zeroed_trans)
  have here: "(\<forall>f < F. at3 (heap s') inputs i k f = 0) \<and>
              (\<forall>f < G. at3 (heap s') targets i k f = 0)"
    if "k < T" "lengths ! i \<le> int k" for k
  proof (intro conjI allI impI)
    fix f assume "f < F"
    with 1(4) that have "at3 (heap s1) inputs i k f = 0" by simp
    from zeroed_at3 [OF z1 vx1 sx i(1) that(1) \<open>f < F\<close> this]
    show "at3 (heap s') inputs i k f = 0" .
  next
    fix f assume "f < G"
    with 2(4) that have "at3 (heap s2) targets i k f = 0" by simp
    from zeroed_at3 [OF 3(3) vy2 sy i(1) that(1) \<open>f < G\<close> this]
    show "at3 (heap s') targets i k f = 0" .
  qed
  from run z here 3(4) 1(2) 2(2) 3(2) show ?case by auto
qed

subsection \<open>The lengths\<close>

lemma randint_lengths:
  assumes "2 \<le> T"
  shows "\<exists>ls s'. randint 1 (Some (int T)) [int B] s = (Inr ls, s') \<and> heap s' = heap s \<and>
           length ls = B \<and> (\<forall>l \<in> set ls. 1 \<le> l \<and> l < int T)"
proof (cases "B = 0")
  case True
  then show ?thesis by (simp add: randint_def returnE_def)
next
  case False
  have "1 + int r mod (int T - 1) < int T" for r
  proof -
    have "0 < int T - 1" using assms by linarith
    then have "int r mod (int T - 1) < int T - 1" by (rule pos_mod_bound)
    then show ?thesis by linarith
  qed
  with False assms show ?thesis
    by (auto simp: randint_def returnE_def bindE_def draw_def)
qed

lemma sorted_descending:
  "sorted_wrt (\<ge>) (map uminus (sort (map uminus (xs :: int list))))"
proof -
  have "sorted (sort (map uminus xs))" by simp
  then show ?thesis by (simp add: sorted_wrt_map sorted_wrt_iff_nth_less)
qed

lemma set_descending: "set (map uminus (sort (map uminus (xs :: int list)))) = set xs"
  by (simp add: image_image)

lemma first_is_max:
  assumes "sorted_wrt (\<ge>) (ys :: int list)" "m \<in> set ys" "\<forall>y \<in> set ys. y \<le> m"
  shows "ys ! 0 = m"
proof -
  from assms(2) obtain j where j: "j < length ys" "ys ! j = m" by (auto simp: in_set_conv_nth)
  then have "ys \<noteq> []" by auto
  have "m \<le> ys ! 0"
  proof (cases j)
    case 0
    with j show ?thesis by simp
  next
    case (Suc k)
    with assms(1) j show ?thesis by (auto simp: sorted_wrt_iff_nth_less)
  qed
  moreover have "ys ! 0 \<le> m" using assms(3) \<open>ys \<noteq> []\<close> by simp
  ultimately show ?thesis by simp
qed


lemma adjust_lengths_sizes:
  assumes "shape inputs = B # T # rest"
  shows "adjust_lengths vary inputs targets =
     (if \<not> vary
       then returnE (map (\<lambda>one. int32 (one * int T)) (replicate B 1))
       else
         bindE (randint 1 (Some (int T)) [int B]) (\<lambda>lengths.
         bindE (liftE (setitem lengths 0 (int T))) (\<lambda>lengths.
         let lengths = map uminus (sort (map uminus lengths))
         in bindE (chop [0..<length lengths] lengths inputs targets) (\<lambda>_.
            returnE lengths))))"
  using assms
  by (simp add: adjust_lengths_def size_at_def liftE_def bindE_def returnE_def fun_eq_iff)

lemma adjust_lengths_vary_ok:
  assumes sx: "shape inputs = [B, T, F]" and sy: "shape targets = [B, T, G]"
    and vx: "valid (heap s) inputs" and vy: "valid (heap s) targets"
    and B: "1 \<le> B" and T: "2 \<le> T"
  shows "\<exists>lengths s'. adjust_lengths True inputs targets s = (Inr lengths, s') \<and>
           length lengths = B \<and> sorted_wrt (\<ge>) lengths \<and> lengths ! 0 = int T \<and>
           (\<forall>l \<in> set lengths. 1 \<le> l \<and> l \<le> int T) \<and>
           (\<forall>i < B. \<forall>k < T. lengths ! i \<le> int k \<longrightarrow>
              (\<forall>f < F. at3 (heap s') inputs i k f = 0) \<and>
              (\<forall>f < G. at3 (heap s') targets i k f = 0))"
proof -
  from randint_lengths [OF T, of B s]
  obtain ls s1 where r: "randint 1 (Some (int T)) [int B] s = (Inr ls, s1)"
    "heap s1 = heap s" "length ls = B" "\<forall>l \<in> set ls. 1 \<le> l \<and> l < int T"
    by blast
  define ls1 where "ls1 = ls[0 := int T]"
  define lengths where "lengths = map uminus (sort (map uminus ls1))"
  have set1: "setitem ls 0 (int T) = Inr ls1"
    using B r(3) by (simp add: setitem_def ls1_def)
  have len: "length lengths = B" by (simp add: lengths_def ls1_def r(3))
  have sorted: "sorted_wrt (\<ge>) lengths" unfolding lengths_def by (rule sorted_descending)
  have sets: "set lengths = set ls1" unfolding lengths_def by (rule set_descending)
  have "set ls1 \<subseteq> insert (int T) (set ls)" unfolding ls1_def by (rule set_update_subset_insert)
  with r(4) sets have range: "\<forall>l \<in> set lengths. 1 \<le> l \<and> l \<le> int T"
    using T by fastforce
  have "int T \<in> set ls1" using B r(3) by (simp add: ls1_def set_update_memI)
  with sets have "int T \<in> set lengths" by simp
  with sorted range have first: "lengths ! 0 = int T" by (intro first_is_max) auto
  have nonneg: "\<forall>i \<in> set [0..<length lengths]. 0 \<le> lengths ! i"
  proof
    fix i assume "i \<in> set [0..<length lengths]"
    then have "lengths ! i \<in> set lengths" by simp
    with range show "0 \<le> lengths ! i" by fastforce
  qed
  have "set [0..<length lengths] \<subseteq> {..<B}" by (auto simp: len)
  from chop_ok [OF sx sy this nonneg, of s1] vx vy r(2)
  obtain s' where c: "chop [0..<length lengths] lengths inputs targets s1 = (Inr (), s')"
    "\<forall>i \<in> set [0..<length lengths]. \<forall>k < T. lengths ! i \<le> int k \<longrightarrow>
       (\<forall>f < F. at3 (heap s') inputs i k f = 0) \<and>
       (\<forall>f < G. at3 (heap s') targets i k f = 0)"
    by auto
  have run: "adjust_lengths True inputs targets s = (Inr lengths, s')"
    using r(1) set1 c(1) unfolding lengths_def
    by (simp add: adjust_lengths_sizes [OF sx] bindE_def liftE_def returnE_def Let_def)
  from c(2) have "\<forall>i < B. \<forall>k < T. lengths ! i \<le> int k \<longrightarrow>
       (\<forall>f < F. at3 (heap s') inputs i k f = 0) \<and>
       (\<forall>f < G. at3 (heap s') targets i k f = 0)"
    by (simp add: len)
  with run len sorted first range show ?thesis by blast
qed


text \<open>
  Claim C8, amended. For every batch that is not empty, with inputs of shape \<open>[B, T, F]\<close>
  and targets of shape \<open>[B, T, G]\<close> in the heap and \<open>T \<ge> 2\<close>, \<open>adjust_lengths\<close> with
  \<open>vary_lengths\<close> true returns a vector of \<open>B\<close> lengths that is sorted in non-increasing
  order, starts with \<open>T\<close> and lies between 1 and \<open>T\<close>, and afterwards \<open>inputs[i, k]\<close> and
  \<open>targets[i, k]\<close> are zero for every \<open>i\<close> and every position \<open>k \<ge> lengths[i]\<close>.
\<close>

theorem varied_lengths_sorted_and_chopped:
  assumes "shape inputs = [B, T, F]" and "shape targets = [B, T, G]"
    and "valid (heap s) inputs" and "valid (heap s) targets"
    and "1 \<le> B" and "2 \<le> T"
  shows "\<exists>lengths s'. adjust_lengths True inputs targets s = (Inr lengths, s') \<and>
           length lengths = B \<and> sorted_wrt (\<ge>) lengths \<and> lengths ! 0 = int T \<and>
           (\<forall>l \<in> set lengths. 1 \<le> l \<and> l \<le> int T) \<and>
           (\<forall>i < B. \<forall>k < T. lengths ! i \<le> int k \<longrightarrow>
              (\<forall>f < F. at3 (heap s') inputs i k f = 0) \<and>
              (\<forall>f < G. at3 (heap s') targets i k f = 0))"
  using assms by (rule adjust_lengths_vary_ok)

theorem varied_lengths_sorted_and_chopped_witness:
  "\<exists>lengths s'.
     adjust_lengths True \<lparr>base = 0, offset = 0, shape = [2, 3, 1]\<rparr>
       \<lparr>base = 1, offset = 0, shape = [2, 3, 1]\<rparr>
       \<lparr>heap = [[1, 1, 1, 1, 1, 1], [1, 0, 1, 0, 1, 1]], gen = (\<lambda>k. k)\<rparr> = (Inr lengths, s') \<and>
     lengths = [3, 2] \<and> sorted_wrt (\<ge>) lengths \<and>
     heap s' = [[1, 1, 1, 1, 1, 0], [1, 0, 1, 0, 1, 0]] \<and>
     at3 (heap s') \<lparr>base = 0, offset = 0, shape = [2, 3, 1]\<rparr> 1 2 0 = 0 \<and>
     at3 (heap s') \<lparr>base = 1, offset = 0, shape = [2, 3, 1]\<rparr> 1 2 0 = 0"
proof -
  let ?x = "\<lparr>base = 0, offset = 0, shape = [2, 3, 1]\<rparr>"
  let ?y = "\<lparr>base = 1, offset = 0, shape = [2, 3, 1]\<rparr>"
  let ?s = "\<lparr>heap = [[1, 1, 1, 1, 1, 1], [1, 0, 1, 0, 1, 1]], gen = (\<lambda>k. k)\<rparr>"
  have "valid (heap ?s) ?x" "valid (heap ?s) ?y" by (simp_all add: valid_def)
  from varied_lengths_sorted_and_chopped [of ?x 2 3 1 ?y 1 ?s, OF _ _ this]
  obtain lengths s' where r: "adjust_lengths True ?x ?y ?s = (Inr lengths, s')"
    "sorted_wrt (\<ge>) lengths"
    "\<forall>i < 2. \<forall>k < 3. lengths ! i \<le> int k \<longrightarrow>
        (\<forall>f < 1. at3 (heap s') ?x i k f = 0) \<and> (\<forall>f < 1. at3 (heap s') ?y i k f = 0)"
    by auto
  have "fst (adjust_lengths True ?x ?y ?s) = Inr [3, 2]" by code_simp
  with r(1) have l: "lengths = [3, 2]" by simp
  have "heap (snd (adjust_lengths True ?x ?y ?s)) = [[1, 1, 1, 1, 1, 0], [1, 0, 1, 0, 1, 0]]"
    by code_simp
  with r(1) have h: "heap s' = [[1, 1, 1, 1, 1, 0], [1, 0, 1, 0, 1, 0]]" by simp
  from r(3) l have "at3 (heap s') ?x 1 2 0 = 0 \<and> at3 (heap s') ?y 1 2 0 = 0"
    by (auto simp: numeral_2_eq_2 numeral_3_eq_3)
  with r(1,2) l h show ?thesis by blast
qed

text \<open>
  The claim as stated fails on the empty batch: the draw returns no lengths, and
  \<^verbatim>\<open>lengths[0] = max_bits\<close> raises \<^verbatim>\<open>IndexError\<close>.
\<close>

theorem empty_batch_returns_no_lengths:
  "fst (adjust_lengths True \<lparr>base = 0, offset = 0, shape = [0, 2, 1]\<rparr>
          \<lparr>base = 1, offset = 0, shape = [0, 2, 1]\<rparr> \<lparr>heap = [[], []], gen = id\<rparr>)
   = Inl IndexError"
  by (simp add: adjust_lengths_def size_at_def liftE_def bindE_def returnE_def raise_def
      randint_def setitem_def)


lemma int32_id: "- (2 ^ 31) \<le> v \<Longrightarrow> v < 2 ^ 31 \<Longrightarrow> int32 v = v"
  by (simp add: int32_def)

lemma adjust_lengths_fixed_run:
  assumes "shape inputs = B # T # rest"
  shows "adjust_lengths False inputs targets s = (Inr (replicate B (int32 (int T))), s)"
  by (simp add: adjust_lengths_sizes [OF assms] returnE_def)

text \<open>
  Claim C9, amended. For every batch whose sequence-length dimension \<open>T\<close> is below
  \<open>2 ^ 31\<close>, \<open>adjust_lengths\<close> with \<open>vary_lengths\<close> false returns one entry per batch
  element, each equal to \<open>T\<close>, and leaves the state, hence inputs and targets, unchanged.
\<close>

theorem fixed_lengths_all_max_bits:
  assumes "shape inputs = B # T # rest" and "T < 2 ^ 31"
  shows "adjust_lengths False inputs targets s = (Inr (replicate B (int T)), s)"
proof -
  have "int T < 2 ^ 31" using assms(2) by (metis of_nat_less_iff of_nat_numeral of_nat_power)
  then have "int32 (int T) = int T" by (intro int32_id) simp_all
  with adjust_lengths_fixed_run [OF assms(1)] show ?thesis by simp
qed

theorem fixed_lengths_all_max_bits_witness:
  "adjust_lengths False \<lparr>base = 0, offset = 0, shape = [2, 3, 1]\<rparr>
     \<lparr>base = 1, offset = 0, shape = [2, 3, 1]\<rparr>
     \<lparr>heap = [[1, 1, 1, 1, 1, 1], [1, 0, 1, 0, 1, 1]], gen = (\<lambda>k. k)\<rparr> =
   (Inr [3, 3], \<lparr>heap = [[1, 1, 1, 1, 1, 1], [1, 0, 1, 0, 1, 1]], gen = (\<lambda>k. k)\<rparr>)"
proof -
  have sh: "shape \<lparr>base = 0, offset = 0, shape = [2, 3, 1]\<rparr> = 2 # 3 # [1]" by simp
  have small: "(3::nat) < 2 ^ 31" by simp
  from fixed_lengths_all_max_bits [OF sh small] show ?thesis by (simp add: numeral_2_eq_2)
qed

text \<open>
  The claim as stated fails from \<open>T = 2 ^ 31\<close> on: the entries are \<^verbatim>\<open>torch.int\<close> values.
\<close>

theorem fixed_lengths_beyond_int32:
  "fst (adjust_lengths False \<lparr>base = 0, offset = 0, shape = [1, 2 ^ 31, 1]\<rparr>
          \<lparr>base = 1, offset = 0, shape = [1, 2 ^ 31, 1]\<rparr>
          \<lparr>heap = [replicate (2 ^ 31) 0, replicate (2 ^ 31) 0], gen = id\<rparr>)
   \<noteq> Inr [2 ^ 31]"
proof -
  have "int32 (int (2 ^ 31)) \<noteq> 2 ^ 31" by (simp add: int32_def)
  then show ?thesis
    by (simp only: adjust_lengths_fixed_run [of _ 1 "2 ^ 31" "[1]"] ndarray.simps fst_conv
        replicate.simps One_nat_def sum.inject list.inject simp_thms not_False_eq_True)
qed

subsection \<open>Failure of the draw\<close>

lemma adjust_lengths_one_bit:
  assumes "shape inputs = B # 1 # rest"
  shows "adjust_lengths True inputs targets s =
     (Inl (if B = 0 then IndexError else ValueError), s)"
  by (simp add: adjust_lengths_sizes [OF assms] randint_def bindE_def returnE_def raise_def
      liftE_def setitem_def)

text \<open>
  Claim C10, amended. With \<open>vary_lengths\<close> true and a sequence-length dimension of 1 the
  call fails and leaves the state as it was; for a batch that is not empty it is the draw
  over the empty range that raises \<^verbatim>\<open>ValueError\<close>. With a dimension of at least 2 the
  draw never raises, and the call succeeds on every batch that is not empty.
\<close>

theorem length_draw_safety:
  "(shape inputs = B # 1 # rest \<longrightarrow>
      (\<exists>e. adjust_lengths True inputs targets s = (Inl e, s)) \<and>
      (1 \<le> B \<longrightarrow> randint 1 (Some 1) [int B] s = (Inl ValueError, s) \<and>
         adjust_lengths True inputs targets s = (Inl ValueError, s))) \<and>
   (2 \<le> T \<longrightarrow>
      (\<exists>ls s1. randint 1 (Some (int T)) [int B] s = (Inr ls, s1)) \<and>
      (1 \<le> B \<and> shape inputs = [B, T, F] \<and> shape targets = [B, T, G] \<and>
       valid (heap s) inputs \<and> valid (heap s) targets \<longrightarrow>
         (\<exists>lengths s'. adjust_lengths True inputs targets s = (Inr lengths, s'))))"
proof (intro conjI impI)
  assume sh: "shape inputs = B # 1 # rest"
  from adjust_lengths_one_bit [OF this]
  show "\<exists>e. adjust_lengths True inputs targets s = (Inl e, s)" by blast
  assume "1 \<le> B"
  then show "randint 1 (Some 1) [int B] s = (Inl ValueError, s)"
    by (simp add: randint_def raise_def)
  from \<open>1 \<le> B\<close> adjust_lengths_one_bit [OF sh]
  show "adjust_lengths True inputs targets s = (Inl ValueError, s)" by simp
next
  assume "2 \<le> T"
  from randint_lengths [OF this]
  show "\<exists>ls s1. randint 1 (Some (int T)) [int B] s = (Inr ls, s1)" by blast
next
  assume "2 \<le> T" and "1 \<le> B \<and> shape inputs = [B, T, F] \<and> shape targets = [B, T, G] \<and>
       valid (heap s) inputs \<and> valid (heap s) targets"
  then show "\<exists>lengths s'. adjust_lengths True inputs targets s = (Inr lengths, s')"
    using adjust_lengths_vary_ok [of inputs B T F targets G s] by blast
qed

theorem length_draw_safety_witness:
  "adjust_lengths True \<lparr>base = 0, offset = 0, shape = [2, 1, 1]\<rparr>
     \<lparr>base = 1, offset = 0, shape = [2, 1, 1]\<rparr> \<lparr>heap = [[1, 1], [1, 0]], gen = (\<lambda>k. k)\<rparr>
     = (Inl ValueError, \<lparr>heap = [[1, 1], [1, 0]], gen = (\<lambda>k. k)\<rparr>) \<and>
   (\<exists>lengths s'. adjust_lengths True \<lparr>base = 0, offset = 0, shape = [2, 2, 1]\<rparr>
     \<lparr>base = 1, offset = 0, shape = [2, 2, 1]\<rparr>
     \<lparr>heap = [[1, 1, 0, 1], [1, 0, 0, 1]], gen = (\<lambda>k. k)\<rparr> = (Inr lengths, s'))"
proof -
  have a: "adjust_lengths True \<lparr>base = 0, offset = 0, shape = [2, 1, 1]\<rparr>
     \<lparr>base = 1, offset = 0, shape = [2, 1, 1]\<rparr> \<lparr>heap = [[1, 1], [1, 0]], gen = (\<lambda>k. k)\<rparr>
     = (Inl ValueError, \<lparr>heap = [[1, 1], [1, 0]], gen = (\<lambda>k. k)\<rparr>)"
    using length_draw_safety [of "\<lparr>base = 0, offset = 0, shape = [2, 1, 1]\<rparr>" 2 "[1]"
        "\<lparr>base = 1, offset = 0, shape = [2, 1, 1]\<rparr>"
        "\<lparr>heap = [[1, 1], [1, 0]], gen = (\<lambda>k. k)\<rparr>" 2 1 1]
    by simp
  have b: "\<exists>lengths s'. adjust_lengths True \<lparr>base = 0, offset = 0, shape = [2, 2, 1]\<rparr>
     \<lparr>base = 1, offset = 0, shape = [2, 2, 1]\<rparr>
     \<lparr>heap = [[1, 1, 0, 1], [1, 0, 0, 1]], gen = (\<lambda>k. k)\<rparr> = (Inr lengths, s')"
    using length_draw_safety [of "\<lparr>base = 0, offset = 0, shape = [2, 2, 1]\<rparr>" 2 "[1]"
        "\<lparr>base = 1, offset = 0, shape = [2, 2, 1]\<rparr>"
        "\<lparr>heap = [[1, 1, 0, 1], [1, 0, 0, 1]], gen = (\<lambda>k. k)\<rparr>" 2 1 1]
    by (simp add: valid_def)
  from a b show ?thesis by blast
qed

text \<open>
  The claim as stated fails on an empty batch, whatever the sequence-length dimension.
\<close>

theorem empty_batch_of_three_bits_fails:
  "fst (adjust_lengths True \<lparr>base = 0, offset = 0, shape = [0, 3, 1]\<rparr>
          \<lparr>base = 1, offset = 0, shape = [0, 3, 1]\<rparr> \<lparr>heap = [[], []], gen = id\<rparr>)
   = Inl IndexError"
  by (simp add: adjust_lengths_def size_at_def liftE_def bindE_def returnE_def raise_def
      randint_def setitem_def)

subsection \<open>Rounding to a double\<close>

lemma round53_small: "n < 2 ^ 53 \<Longrightarrow> round53 n = n"
  by (simp add: round53_def bitlen_le_iff_power)

lemma round53_large:
  assumes "2 ^ 53 \<le> n"
  shows "even (round53 n) \<and> 2 ^ 53 * n \<le> 2 ^ 53 * round53 n + n \<and>
         2 ^ 53 * round53 n \<le> 2 ^ 53 * n + n"
proof -
  define L where "L = bitlen n"
  define sh where "sh = nat (L - 53)"
  define q where "q = n div 2 ^ sh"
  define r where "r = n mod 2 ^ sh"
  define half :: int where "half = 2 ^ (sh - 1)"
  have n0: "0 < n" using assms by (simp add: less_le_trans [of 0 "2 ^ 53"])
  have L: "53 < L" using assms unfolding L_def by (simp add: not_le [symmetric] bitlen_le_iff_power)
  then have sh: "1 \<le> sh" "nat (L - 1) = sh + 52" by (simp_all add: sh_def)
  have lo: "2 ^ nat (L - 1) \<le> n" using bitlen_bounds [OF n0] by (simp add: L_def)
  have two: "(2::int) ^ sh = 2 * half" using sh(1) by (simp add: half_def power_eq_if)
  have hn: "2 ^ 53 * half \<le> n"
  proof -
    have "(2::int) ^ 53 * half = 2 ^ (53 + (sh - 1))"
      unfolding half_def by (simp only: power_add)
    also have "53 + (sh - 1) = sh + 52" using sh(1) by simp
    finally have "(2::int) ^ 53 * half = 2 ^ (sh + 52)" .
    with lo sh(2) show ?thesis by simp
  qed
  have h0: "0 < half" by (simp add: half_def)
  have n: "n = q * (2 * half) + r"
    unfolding q_def r_def two by (rule div_mult_mod_eq [symmetric])
  have r: "0 \<le> r" "r < 2 * half"
    using h0 by (simp_all add: r_def two)
  have "round53 n = (if 2 ^ (sh - 1) < n mod 2 ^ sh \<or>
        (n mod 2 ^ sh = 2 ^ (sh - 1) \<and> odd (n div 2 ^ sh))
      then n div 2 ^ sh + 1 else n div 2 ^ sh) * 2 ^ sh"
    using L unfolding round53_def L_def sh_def Let_def by simp
  then have rd: "round53 n = (if half < r \<or> (r = half \<and> odd q) then q + 1 else q) * (2 * half)"
    unfolding q_def r_def half_def two [unfolded half_def] .
  have ev: "even (round53 n)" unfolding rd by simp
  have near: "n \<le> round53 n + half \<and> round53 n \<le> n + half"
    unfolding rd using n r by (auto simp: algebra_simps)
  have "2 ^ 53 * n \<le> 2 ^ 53 * (round53 n + half)" using near by simp
  also have "\<dots> \<le> 2 ^ 53 * round53 n + n" using hn by (simp add: algebra_simps)
  finally have a: "2 ^ 53 * n \<le> 2 ^ 53 * round53 n + n" .
  have "2 ^ 53 * round53 n \<le> 2 ^ 53 * (n + half)" using near by simp
  also have "\<dots> \<le> 2 ^ 53 * n + n" using hn by (simp add: algebra_simps)
  finally have b: "2 ^ 53 * round53 n \<le> 2 ^ 53 * n + n" .
  from ev a b show ?thesis by blast
qed

lemma round53_bounds:
  assumes "0 \<le> n"
  shows "2 ^ 53 * n \<le> 2 ^ 53 * round53 n + n \<and> 2 ^ 53 * round53 n \<le> 2 ^ 53 * n + n"
proof (cases "n < 2 ^ 53")
  case True
  with assms show ?thesis by (simp add: round53_small)
next
  case False
  then show ?thesis using round53_large [of n] by simp
qed


lemma int_times_1_5_grows:
  assumes "2 \<le> m"
  shows "(\<forall>k. int_times_1_5 m = Inr k \<longrightarrow> m < k) \<and>
         (m < 2 ^ 1023 \<longrightarrow> (\<exists>k. int_times_1_5 m = Inr k))"
proof -
  define d where "d = round53 m"
  define h where "h = round53 (3 * d)"
  from round53_bounds [of m] assms
  have dm: "9007199254740992 * m \<le> 9007199254740992 * d + m"
    "9007199254740992 * d \<le> 9007199254740992 * m + m"
    by (simp_all add: d_def)
  then have d0: "0 \<le> d" using assms by linarith
  from round53_bounds [of "3 * d"] d0
  have hd: "9007199254740992 * (3 * d) \<le> 9007199254740992 * h + 3 * d"
    "9007199254740992 * h \<le> 9007199254740992 * (3 * d) + 3 * d"
    by (simp_all add: h_def)
  have big: "m < h div 2"
  proof (cases "3 * d < 2 ^ 53")
    case True
    then have h3: "h = 3 * d" by (simp add: h_def round53_small)
    have "m < 2 ^ 53" using True dm(1) assms by simp
    then have "d = m" by (simp add: d_def round53_small)
    with h3 assms show ?thesis by simp
  next
    case False
    then have "2 ^ 53 \<le> 3 * d" by simp
    from round53_large [OF this] have "even h" by (simp add: h_def)
    then obtain j where j: "h = 2 * j" by (auto elim: evenE)
    have "2 * m < h" using hd(1) dm(1) assms by linarith
    with j show ?thesis by simp
  qed
  have m: "\<bar>m\<bar> = m" "sgn m = 1" using assms by simp_all
  have res: "int_times_1_5 m = Inr k \<Longrightarrow> k = h div 2" for k
    using m by (auto simp: int_times_1_5_def Let_def d_def [symmetric] h_def [symmetric]
        split: if_splits)
  have "\<exists>k. int_times_1_5 m = Inr k" if small: "m < 2 ^ 1023"
  proof -
    define P :: int where "P = 2 ^ 1023"
    have P: "m < P" using small by (simp add: P_def)
    have d_fin: "d < 2 * P" using dm(2) P assms by linarith
    have h_fin: "h < 4 * P" using hd(2) dm(2) P assms by linarith
    have "\<not> 2 ^ 1024 \<le> d" "\<not> 2 ^ 1025 \<le> h"
      using d_fin h_fin by (simp_all add: P_def)
    with m show ?thesis
      by (simp add: int_times_1_5_def Let_def d_def [symmetric] h_def [symmetric])
  qed
  with big res show ?thesis by blast
qed

lemma int_times_1_5_too_large: "int_times_1_5 (2 ^ 1024) = Inl OverflowError"
  by code_simp

text \<open>
  Claim C5, amended. For every \<open>max_bits \<ge> 2\<close> at which \<open>int(max_bits * 1.5)\<close> is
  defined, as it is below \<open>2 ^ 1023\<close>, that number is strictly greater than \<open>max_bits\<close>,
  and every validation dataset that \<open>evaluate\<close> constructs has it as its \<open>num_bits\<close>. Where
  the product raises, \<open>evaluate\<close> raises the same error before it asks for any array.
\<close>

theorem evaluate_dataset_longer:
  assumes "2 \<le> max_bits"
  shows "(\<forall>k. int_times_1_5 max_bits = Inr k \<longrightarrow> max_bits < k) \<and>
         (max_bits < 2 ^ 1023 \<longrightarrow> (\<exists>k. int_times_1_5 max_bits = Inr k)) \<and>
         (\<forall>e. int_times_1_5 max_bits = Inl e \<longrightarrow>
            evaluate_dataset max_bits s = (Inl e, s) \<and>
            evaluate max_bits vary_lengths cuda m s = (Inl e, s)) \<and>
         (\<forall>ds s'. evaluate_dataset max_bits s = (Inr ds, s') \<longrightarrow>
            int_times_1_5 max_bits = Inr (num_bits ds) \<and> max_bits < num_bits ds \<and>
            num_sequences ds = 5000 \<and>
            shape (features ds) = [5000, nat (num_bits ds), 1] \<and>
            shape (labels ds) = [5000, nat (num_bits ds), 1])"
proof (intro conjI allI impI)
  fix k
  assume "int_times_1_5 max_bits = Inr k"
  with int_times_1_5_grows [OF assms] show "max_bits < k" by simp
next
  assume "max_bits < 2 ^ 1023"
  with int_times_1_5_grows [OF assms] show "\<exists>k. int_times_1_5 max_bits = Inr k" by simp
next
  fix e
  assume e: "int_times_1_5 max_bits = Inl e"
  then show d: "evaluate_dataset max_bits s = (Inl e, s)"
    by (simp add: evaluate_dataset_def bindE_def liftE_def raise_def)
  then show "evaluate max_bits vary_lengths cuda m s = (Inl e, s)"
    by (simp add: evaluate_def bindE_def)
next
  fix ds s'
  assume run: "evaluate_dataset max_bits s = (Inr ds, s')"
  then obtain k where k: "int_times_1_5 max_bits = Inr k"
    and init: "XORDataset_init 5000 k s = (Inr ds, s')"
    by (cases "int_times_1_5 max_bits")
      (simp_all add: evaluate_dataset_def bindE_def liftE_def raise_def returnE_def)
  note r = XORDataset_init_result [OF init]
  from r have nb: "num_bits ds = k" by simp
  with k show "int_times_1_5 max_bits = Inr (num_bits ds)" by simp
  from int_times_1_5_grows [OF assms] k nb show "max_bits < num_bits ds" by simp
  from r show "num_sequences ds = 5000" by simp
  from r nb show "shape (features ds) = [5000, nat (num_bits ds), 1]"
    "shape (labels ds) = [5000, nat (num_bits ds), 1]" by simp_all
qed

theorem evaluate_dataset_longer_witness:
  "int_times_1_5 50 = Inr 75 \<and> (50::int) < 75 \<and>
   (\<exists>ds s'. evaluate_dataset 50 \<lparr>heap = [], gen = (\<lambda>k. k)\<rparr> = (Inr ds, s') \<and>
      num_bits ds = 75 \<and> (50::int) < num_bits ds \<and> shape (features ds) = [5000, 75, 1])"
proof -
  have two: "(2::int) \<le> 50" by simp
  note e = evaluate_dataset_longer [OF two, of "\<lparr>heap = [], gen = (\<lambda>k. k)\<rparr>"]
  have v: "int_times_1_5 50 = Inr 75" by code_simp
  from XORDataset_init_total [of 5000 75 "\<lparr>heap = [], gen = (\<lambda>k. k)\<rparr>"]
  obtain ds s' where "XORDataset_init 5000 75 \<lparr>heap = [], gen = (\<lambda>k. k)\<rparr> = (Inr ds, s')"
    by auto
  with v have run: "evaluate_dataset 50 \<lparr>heap = [], gen = (\<lambda>k. k)\<rparr> = (Inr ds, s')"
    by (simp add: evaluate_dataset_def bindE_def liftE_def returnE_def)
  with e have p: "int_times_1_5 50 = Inr (num_bits ds)" "50 < num_bits ds"
    "shape (features ds) = [5000, nat (num_bits ds), 1]" by blast+
  from p(1) v have "num_bits ds = 75" by simp
  with run p v show ?thesis by auto
qed

text \<open>
  The claim as stated fails where \<open>max_bits\<close> has no double: \<^verbatim>\<open>max_bits * 1.5\<close> raises
  \<^verbatim>\<open>OverflowError\<close> and no dataset is constructed.
\<close>

theorem evaluate_dataset_overflow:
  "fst (evaluate_dataset (2 ^ 1024) \<lparr>heap = [], gen = id\<rparr>) = Inl OverflowError"
  by (simp only: evaluate_dataset_def int_times_1_5_too_large bindE_def liftE_def raise_def
      sum.case prod.case fst_conv)

subsection \<open>The forward pass\<close>














subsection \<open>Frame rules\<close>

lemma framesI:
  assumes "\<And>s r s'. n \<le> length (heap s) \<Longrightarrow> c s = (r, s') \<Longrightarrow>
    length (heap s) \<le> length (heap s') \<and> (\<forall>a < n. heap s' ! a = heap s ! a) \<and>
    (\<forall>x. r = Inr x \<longrightarrow> Q x)"
  shows "frames n c Q"
  using assms by (simp add: frames_def)

lemma framesD:
  assumes "frames n c Q" "n \<le> length (heap s)" "c s = (r, s')"
  shows "length (heap s) \<le> length (heap s')" and "\<And>a. a < n \<Longrightarrow> heap s' ! a = heap s ! a"
    and "\<And>x. r = Inr x \<Longrightarrow> Q x"
  using assms by (simp_all add: frames_def)

lemma frames_returnE: "Q x \<Longrightarrow> frames n (returnE x) Q"
  by (simp add: frames_def returnE_def)

lemma frames_raise: "frames n (raise e) Q"
  by (simp add: frames_def raise_def)

lemma frames_liftE: "(\<And>x. r = Inr x \<Longrightarrow> Q x) \<Longrightarrow> frames n (liftE r) Q"
  by (cases r) (simp_all add: liftE_def frames_raise frames_returnE)

lemma frames_weaken:
  assumes c: "frames n c P" and w: "\<And>x. P x \<Longrightarrow> Q x"
  shows "frames n c Q"
proof (rule framesI)
  fix s r s'
  assume n: "n \<le> length (heap s)" and run: "c s = (r, s')"
  from framesD [OF c n run] w
  show "length (heap s) \<le> length (heap s') \<and> (\<forall>a < n. heap s' ! a = heap s ! a) \<and>
        (\<forall>x. r = Inr x \<longrightarrow> Q x)" by simp
qed

lemma frames_bindE:
  assumes m: "frames n m P" and f: "\<And>x. P x \<Longrightarrow> frames n (f x) Q"
  shows "frames n (bindE m f) Q"
proof (rule framesI)
  fix s r s'
  assume n: "n \<le> length (heap s)" and run: "bindE m f s = (r, s')"
  obtain r1 s1 where m1: "m s = (r1, s1)" by (cases "m s")
  note 1 = framesD [OF m n m1]
  show "length (heap s) \<le> length (heap s') \<and> (\<forall>a < n. heap s' ! a = heap s ! a) \<and>
        (\<forall>x. r = Inr x \<longrightarrow> Q x)"
  proof (cases r1)
    case (Inl e)
    with run m1 have "r = Inl e" "s' = s1" by (simp_all add: bindE_def)
    with 1(1,2) show ?thesis by simp
  next
    case (Inr x)
    with run m1 have fx: "f x s1 = (r, s')" by (simp add: bindE_def)
    from n 1(1) have n1: "n \<le> length (heap s1)" by simp
    note 2 = framesD [OF f [OF 1(3) [OF Inr]] n1 fx]
    from 1(1) 2(1) have "length (heap s) \<le> length (heap s')" by simp
    moreover have "\<forall>a < n. heap s' ! a = heap s ! a" using 1(2) 2(2) by simp
    moreover have "\<forall>x. r = Inr x \<longrightarrow> Q x" using 2(3) by simp
    ultimately show ?thesis by simp
  qed
qed


lemma frames_state:
  assumes "\<And>s0. frames n (f s0) Q"
  shows "frames n (\<lambda>s. f s s) Q"
proof (rule framesI)
  fix s r s'
  assume "n \<le> length (heap s)" and "f s s = (r, s')"
  from framesD [OF assms this]
  show "length (heap s) \<le> length (heap s') \<and> (\<forall>a < n. heap s' ! a = heap s ! a) \<and>
        (\<forall>x. r = Inr x \<longrightarrow> Q x)" by simp
qed

lemma frames_alloc: "frames n (alloc buf) (\<lambda>a. n \<le> a)"
  by (rule framesI) (auto simp: alloc_def nth_append)

lemma frames_randint: "frames n (randint low high dims) (\<lambda>_. True)"
proof -
  have "frames n (draw k) (\<lambda>_. True)" for k
    by (rule framesI) (auto simp: draw_def)
  then show ?thesis
    unfolding randint_def Let_def
    by (auto intro!: frames_raise frames_returnE frames_bindE [where P = "\<lambda>_. True"])
qed

lemma frames_assign_tail_zero:
  assumes "n \<le> base x"
  shows "frames n (assign_tail_zero x i l) (\<lambda>_. True)"
proof (rule framesI)
  fix s r s'
  assume "n \<le> length (heap s)" and "assign_tail_zero x i l s = (r, s')"
  then have "s' = s \<or> (\<exists>buf. s' = s\<lparr>heap := (heap s)[base x := buf]\<rparr>)"
    by (auto simp: assign_tail_zero_def Let_def raise_def split: list.splits if_splits)
  with assms show "length (heap s) \<le> length (heap s') \<and>
      (\<forall>a < n. heap s' ! a = heap s ! a) \<and> (\<forall>x. r = Inr x \<longrightarrow> True)"
    by auto
qed

lemma frames_chop:
  assumes "n \<le> base inputs" "n \<le> base targets"
  shows "frames n (chop idx lengths inputs targets) (\<lambda>_. True)"
proof (induction idx)
  case Nil
  show ?case by (simp add: frames_returnE)
next
  case (Cons i idx)
  have "frames n (assign_tail_zero inputs i (lengths ! i)) (\<lambda>_. True)"
    "frames n (assign_tail_zero targets i (lengths ! i)) (\<lambda>_. True)"
    using assms by (simp_all add: frames_assign_tail_zero)
  with Cons.IH show ?case
    unfolding chop.simps by (intro frames_bindE [where P = "\<lambda>_. True"])
qed


lemma frames_adjust_lengths:
  assumes "n \<le> base inputs" "n \<le> base targets"
  shows "frames n (adjust_lengths vary_lengths inputs targets) (\<lambda>_. True)"
proof -
  have c: "frames n (chop idx lengths inputs targets) (\<lambda>_. True)" for idx lengths
    using assms by (rule frames_chop)
  have vary: "frames n
      (bindE (randint 1 (Some (int max_bits)) [int batch_size]) (\<lambda>lengths.
       bindE (liftE (setitem lengths 0 (int max_bits))) (\<lambda>lengths.
       let lengths = map uminus (sort (map uminus lengths))
       in bindE (chop [0..<length lengths] lengths inputs targets) (\<lambda>_.
          returnE lengths)))) (\<lambda>_. True)" for batch_size max_bits
    unfolding Let_def
    apply (rule frames_bindE [where P = "\<lambda>_. True"])
     apply (rule frames_randint)
    apply (rule frames_bindE [where P = "\<lambda>_. True"])
     apply (rule frames_liftE)
     apply (rule TrueI)
    apply (rule frames_bindE [where P = "\<lambda>_. True"])
     apply (rule c)
    apply (rule frames_returnE)
    apply (rule TrueI)
    done
  have body: "frames n
      (if \<not> vary_lengths
       then returnE (map (\<lambda>one. int32 (one * int max_bits)) (replicate batch_size 1))
       else
         bindE (randint 1 (Some (int max_bits)) [int batch_size]) (\<lambda>lengths.
         bindE (liftE (setitem lengths 0 (int max_bits))) (\<lambda>lengths.
         let lengths = map uminus (sort (map uminus lengths))
         in bindE (chop [0..<length lengths] lengths inputs targets) (\<lambda>_.
            returnE lengths)))) (\<lambda>_. True)" for batch_size max_bits
    using vary [of max_bits batch_size] by (simp add: frames_returnE)
  show ?thesis
    unfolding adjust_lengths_def
    apply (rule frames_bindE [where P = "\<lambda>_. True"])
     apply (rule frames_liftE)
     apply (rule TrueI)
    apply (rule frames_bindE [where P = "\<lambda>_. True"])
     apply (rule frames_liftE)
     apply (rule TrueI)
    apply (rule body)
    done
qed

lemma frames_get_random_bits_parity:
  "frames n (get_random_bits_parity n_sequences n_bits) (\<lambda>_. True)"
  unfolding get_random_bits_parity_def Let_def
  apply (rule frames_bindE [where P = "\<lambda>_. True"])
   apply (rule frames_randint)
  apply (rule frames_bindE [where P = "\<lambda>_. True"])
   apply (rule frames_weaken [OF frames_alloc])
   apply (rule TrueI)
  apply (rule frames_bindE [where P = "\<lambda>_. True"])
   apply (rule frames_weaken [OF frames_alloc])
   apply (rule TrueI)
  apply (rule frames_returnE)
  apply (rule TrueI)
  done

lemma frames_XORDataset_init:
  "frames n (XORDataset_init n_sequences n_bits) (\<lambda>_. True)"
  unfolding XORDataset_init_def
  apply (rule frames_bindE [where P = "\<lambda>_. True"])
   apply (rule frames_get_random_bits_parity)
  apply (simp add: split_def frames_returnE)
  done

lemma frames_stack: "frames n (stack xs) (\<lambda>x. n \<le> base x)"
proof (cases xs)
  case Nil
  then show ?thesis by (simp add: stack_def frames_raise)
next
  case (Cons x rest)
  have "frames n (\<lambda>s. bindE (alloc (concat (map (contents (heap s)) xs)))
      (\<lambda>a. returnE \<lparr>base = a, offset = 0, shape = length xs # shape x\<rparr>) s) (\<lambda>x. n \<le> base x)"
    apply (rule frames_state [where f = "\<lambda>s0. bindE (alloc (concat (map (contents (heap s0)) xs)))
      (\<lambda>a. returnE \<lparr>base = a, offset = 0, shape = length xs # shape x\<rparr>)"])
    apply (rule frames_bindE [where P = "\<lambda>a. n \<le> a"])
     apply (rule frames_alloc)
    apply (rule frames_returnE)
    apply simp
    done
  with Cons show ?thesis by (simp add: stack_def frames_raise)
qed

lemma frames_fetch:
  "frames n (fetch dataset indices) (\<lambda>(x, y). n \<le> base x \<and> n \<le> base y)"
  unfolding fetch_def
  apply (rule frames_bindE [where P = "\<lambda>_. True"])
   apply (rule frames_liftE)
   apply (rule TrueI)
  apply (rule frames_bindE [where P = "\<lambda>x. n \<le> base x"])
   apply (rule frames_stack)
  apply (rule frames_bindE [where P = "\<lambda>x. n \<le> base x"])
   apply (rule frames_stack)
  apply (rule frames_returnE)
  apply simp
  done

lemma frames_to_device:
  assumes "n \<le> base x"
  shows "frames n (to_device cuda x) (\<lambda>y. n \<le> base y)"
proof (cases cuda)
  case True
  have "frames n (\<lambda>s. bindE (alloc (contents (heap s) x))
      (\<lambda>a. returnE \<lparr>base = a, offset = 0, shape = shape x\<rparr>) s) (\<lambda>y. n \<le> base y)"
    apply (rule frames_state [where f = "\<lambda>s0. bindE (alloc (contents (heap s0) x))
      (\<lambda>a. returnE \<lparr>base = a, offset = 0, shape = shape x\<rparr>)"])
    apply (rule frames_bindE [where P = "\<lambda>a. n \<le> a"])
     apply (rule frames_alloc)
    apply (rule frames_returnE)
    apply simp
    done
  with True show ?thesis by (simp add: to_device_def)
next
  case False
  with assms show ?thesis by (simp add: to_device_def frames_returnE)
qed

lemma frames_read3: "frames n (read3 x) (\<lambda>_. True)"
  by (rule framesI) (auto simp: read3_def returnE_def raise_def split: list.splits)


subsection \<open>The loops leave the buffers below the mark as they are\<close>

lemma frames_evaluate_batch:
  "frames n (evaluate_batch vary_lengths cuda m dataset indices) (\<lambda>_. True)"
  unfolding evaluate_batch_def
  apply (rule frames_bindE [where P = "\<lambda>(x, y). n \<le> base x \<and> n \<le> base y"])
   apply (rule frames_fetch)
  apply (clarsimp simp only: split_def prod.case)
  apply (rule frames_bindE [where P = "\<lambda>_. True"])
   apply (rule frames_adjust_lengths; simp)
  apply (rule frames_bindE [where P = "\<lambda>x. n \<le> base x"])
   apply (rule frames_to_device; simp)
  apply (rule frames_bindE [where P = "\<lambda>x. n \<le> base x"])
   apply (rule frames_to_device; simp)
  apply (rule frames_bindE [where P = "\<lambda>_. True"])
   apply (rule frames_read3)
  apply (rule frames_bindE [where P = "\<lambda>_. True"])
   apply (rule frames_read3)
  apply (rule frames_bindE [where P = "\<lambda>_. True"])
   apply (rule frames_liftE)
   apply (rule TrueI)
  apply (rule frames_bindE [where P = "\<lambda>_. True"])
   apply (rule frames_liftE)
   apply (rule TrueI)
  apply (simp add: frames_raise frames_returnE)
  done

lemma frames_evaluate_loop:
  "frames n (evaluate_loop vary_lengths cuda m dataset batches correct) (\<lambda>_. True)"
proof (induction batches arbitrary: correct)
  case Nil
  show ?case by (simp add: frames_returnE)
next
  case (Cons indices batches)
  show ?case
    unfolding evaluate_loop.simps
    apply (rule frames_bindE [where P = "\<lambda>_. True"])
     apply (rule frames_evaluate_batch)
    apply (rule Cons.IH)
    done
qed

lemma frames_evaluate:
  "frames n (evaluate max_bits vary_lengths cuda m) (\<lambda>_. True)"
  unfolding evaluate_def evaluate_dataset_def
  apply (rule frames_bindE [where P = "\<lambda>_. True"])
   apply (rule frames_bindE [where P = "\<lambda>_. True"])
    apply (rule frames_liftE)
    apply (rule TrueI)
   apply (rule frames_XORDataset_init)
  apply (rule frames_bindE [where P = "\<lambda>_. True"])
   apply (rule frames_evaluate_loop)
  apply (rule frames_returnE)
  apply (rule TrueI)
  done

lemma frames_train_batch:
  "frames n (train_batch optimize max_bits vary_lengths cuda dataset st indices) (\<lambda>_. True)"
  unfolding train_batch_def Let_def
  apply (rule frames_bindE [where P = "\<lambda>(x, y). n \<le> base x \<and> n \<le> base y"])
   apply (rule frames_fetch)
  apply (clarsimp simp only: split_def prod.case)
  apply (rule frames_bindE [where P = "\<lambda>_. True"])
   apply (rule frames_adjust_lengths; simp)
  apply (rule frames_bindE [where P = "\<lambda>x. n \<le> base x"])
   apply (rule frames_to_device; simp)
  apply (rule frames_bindE [where P = "\<lambda>_. True"])
   apply (rule frames_read3)
  apply (rule frames_bindE [where P = "\<lambda>_. True"])
   apply (rule frames_read3)
  apply (rule frames_bindE [where P = "\<lambda>_. True"])
   apply (rule frames_liftE)
   apply (rule TrueI)
  apply (rule frames_bindE [where P = "\<lambda>_. True"])
   apply (rule frames_liftE)
   apply (rule TrueI)
  apply (rule frames_bindE [where P = "\<lambda>_. True"])
   apply (rule frames_liftE)
   apply (rule TrueI)
  apply (simp only: split: if_split)
  apply (intro conjI impI)
   apply (rule frames_bindE [where P = "\<lambda>_. True"])
    apply (rule frames_evaluate)
   apply (rule frames_returnE)
   apply (rule TrueI)
  apply (rule frames_returnE)
  apply (rule TrueI)
  done

lemma frames_train_epoch:
  "frames n (train_epoch optimize max_bits vary_lengths cuda dataset batches st) (\<lambda>_. True)"
proof (induction batches arbitrary: st)
  case Nil
  show ?case by (simp add: frames_returnE)
next
  case (Cons indices batches)
  have "frames n (case fl of Break \<Rightarrow> returnE st'
      | Continue \<Rightarrow> train_epoch optimize max_bits vary_lengths cuda dataset batches st')
      (\<lambda>_. True)" for fl st'
    by (cases fl) (simp_all add: frames_returnE Cons.IH)
  then show ?case
    unfolding train_epoch.simps
    apply -
    apply (rule frames_bindE [where P = "\<lambda>_. True"])
     apply (rule frames_train_batch)
    apply (simp add: split_def)
    done
qed

lemma frames_train_epochs:
  "frames n (train_epochs optimize max_bits batch_size vary_lengths cuda dataset order epochs st)
     (\<lambda>_. True)"
proof (induction epochs arbitrary: st)
  case Nil
  show ?case by (simp add: frames_returnE)
next
  case (Cons epoch epochs)
  have "frames n (case valid_accuracy st' of None \<Rightarrow> raise NameError
      | Some accuracy \<Rightarrow> if accuracy = 1 then returnE st'
          else train_epochs optimize max_bits batch_size vary_lengths cuda dataset order epochs st')
      (\<lambda>_. True)" for st'
    by (cases "valid_accuracy st'") (simp_all add: frames_returnE frames_raise Cons.IH)
  then show ?case
    unfolding train_epochs.simps
    apply -
    apply (rule frames_bindE [where P = "\<lambda>_. True"])
     apply (rule frames_train_epoch)
    apply simp
    done
qed


text \<open>
  Claim C4. The arrays of a constructed \<open>XORDataset\<close> are never written. \<open>getitem\<close> and
  \<open>len\<close> are functions of the dataset alone: they return views and a number and have no
  access to the heap. From every state that holds the buffers of the dataset, the
  training loop (any number of epochs, any order of the indices, any optimizer, with
  \<open>vary_lengths\<close> true or false), \<open>evaluate\<close>, and \<open>adjust_lengths\<close> on a batch fetched from
  the dataset leave the buffers of \<open>features\<close> and \<open>labels\<close> as they are, also when they
  raise: a batch is stacked into buffers of its own, and the zeros go there.
\<close>

theorem dataset_never_written:
  assumes init: "XORDataset_init n_sequences n_bits s0 = (Inr dataset, s1)"
    and later: "length (heap s1) \<le> length (heap s)"
  shows "(\<forall>index r s'. liftE (getitem dataset index) s = (r, s') \<longrightarrow> s' = s) \<and>
         (\<forall>r s'. returnE (len dataset) s = (r, s') \<longrightarrow> s' = s) \<and>
         (\<forall>r s'. train_epochs optimize max_bits batch_size vary_lengths cuda dataset order
              epochs st s = (r, s') \<longrightarrow>
            heap s' ! base (features dataset) = heap s ! base (features dataset) \<and>
            heap s' ! base (labels dataset) = heap s ! base (labels dataset)) \<and>
         (\<forall>model0 r s'. training_loop optimize vary_lengths cuda order model0 dataset s = (r, s') \<longrightarrow>
            heap s' ! base (features dataset) = heap s ! base (features dataset) \<and>
            heap s' ! base (labels dataset) = heap s ! base (labels dataset)) \<and>
         (\<forall>m r s'. evaluate max_bits vary_lengths cuda m s = (r, s') \<longrightarrow>
            heap s' ! base (features dataset) = heap s ! base (features dataset) \<and>
            heap s' ! base (labels dataset) = heap s ! base (labels dataset)) \<and>
         (\<forall>indices inputs targets s2 r s3.
            fetch dataset indices s = (Inr (inputs, targets), s2) \<longrightarrow>
            adjust_lengths vary_lengths inputs targets s2 = (r, s3) \<longrightarrow>
            base inputs \<notin> {base (features dataset), base (labels dataset)} \<and>
            base targets \<notin> {base (features dataset), base (labels dataset)} \<and>
            heap s3 ! base (features dataset) = heap s ! base (features dataset) \<and>
            heap s3 ! base (labels dataset) = heap s ! base (labels dataset))"
proof -
  define n where "n = length (heap s1)"
  from XORDataset_init_result [OF init]
  have f: "base (features dataset) < n" and l: "base (labels dataset) < n"
    by (simp_all add: n_def)
  from later have n: "n \<le> length (heap s)" by (simp add: n_def)
  have item: "s' = s" if "liftE (getitem dataset index) s = (r, s')" for index r s'
    using that by (cases "getitem dataset index") (simp_all add: liftE_def raise_def returnE_def)
  have length: "s' = s" if "returnE (len dataset) s = (r, s')" for r s'
    using that by (simp add: returnE_def)
  have loop: "heap s' ! base (features dataset) = heap s ! base (features dataset) \<and>
      heap s' ! base (labels dataset) = heap s ! base (labels dataset)"
    if "train_epochs optimize max_bits batch_size vary_lengths cuda dataset order
          epochs st s = (r, s')" for r s'
    using framesD(2) [OF frames_train_epochs n that] f l by simp
  have whole: "heap s' ! base (features dataset) = heap s ! base (features dataset) \<and>
      heap s' ! base (labels dataset) = heap s ! base (labels dataset)"
    if "training_loop optimize vary_lengths cuda order model0 dataset s = (r, s')" for model0 r s'
    using framesD(2) [OF frames_train_epochs n that [unfolded training_loop_def]] f l by simp
  have eval: "heap s' ! base (features dataset) = heap s ! base (features dataset) \<and>
      heap s' ! base (labels dataset) = heap s ! base (labels dataset)"
    if "evaluate max_bits vary_lengths cuda m s = (r, s')" for m r s'
    using framesD(2) [OF frames_evaluate n that] f l by simp
  have adj: "base inputs \<notin> {base (features dataset), base (labels dataset)} \<and>
      base targets \<notin> {base (features dataset), base (labels dataset)} \<and>
      heap s3 ! base (features dataset) = heap s ! base (features dataset) \<and>
      heap s3 ! base (labels dataset) = heap s ! base (labels dataset)"
    if fe: "fetch dataset indices s = (Inr (inputs, targets), s2)"
      and ad: "adjust_lengths vary_lengths inputs targets s2 = (r, s3)"
    for indices inputs targets s2 r s3
  proof -
    note 1 = framesD [OF frames_fetch n fe]
    from 1(3) have b: "n \<le> base inputs" "n \<le> base targets" by auto
    from n 1(1) have n2: "n \<le> length (heap s2)" by simp
    note 2 = framesD [OF frames_adjust_lengths [OF b] n2 ad]
    from b f l 1(2) 2(2) show ?thesis by auto
  qed
  from item length loop whole eval adj show ?thesis by blast
qed

text \<open>The same for the notebook as a whole, from the construction of the dataset on.\<close>

lemma frames_first_batch: "frames n (first_batch dataset order0) (\<lambda>_. True)"
proof (cases "batch_indices 8 order0")
  case Nil
  then show ?thesis by (simp add: first_batch_def frames_returnE)
next
  case (Cons indices rest)
  have "frames n (bindE (fetch dataset indices) (\<lambda>_. returnE ())) (\<lambda>_. True)"
    apply (rule frames_bindE [where P = "\<lambda>_. True"])
     apply (rule frames_weaken [OF frames_fetch])
     apply (rule TrueI)
    apply (rule frames_returnE)
    apply (rule TrueI)
    done
  with Cons show ?thesis by (simp add: first_batch_def)
qed

lemma notebook_dataset_unchanged:
  assumes init: "XORDataset_init 100000 50 s0 = (Inr dataset, s1)"
    and run: "notebook optimize vary_lengths cuda order initial s0 = (r, s')"
  shows "heap s' ! base (features dataset) = heap s1 ! base (features dataset) \<and>
         heap s' ! base (labels dataset) = heap s1 ! base (labels dataset)"
proof -
  define n where "n = length (heap s1)"
  from XORDataset_init_result [OF init]
  have f: "base (features dataset) < n" and l: "base (labels dataset) < n"
    by (simp_all add: n_def)
  let ?rest = "bindE (first_batch dataset (order 0)) (\<lambda>_.
      bindE (training_loop optimize vary_lengths cuda order (RNN_init 4 initial) dataset) (\<lambda>st.
      returnE (dataset, st)))"
  have fr: "frames n ?rest (\<lambda>_. True)"
    unfolding training_loop_def
    apply (rule frames_bindE [where P = "\<lambda>_. True"])
     apply (rule frames_first_batch)
    apply (rule frames_bindE [where P = "\<lambda>_. True"])
     apply (rule frames_train_epochs)
    apply (rule frames_returnE)
    apply (rule TrueI)
    done
  from run init have rest: "?rest s1 = (r, s')" by (simp add: notebook_def bindE_def)
  have "n \<le> length (heap s1)" by (simp add: n_def)
  from framesD(2) [OF fr this rest] f l show ?thesis by simp
qed

theorem dataset_never_written_witness:
  "\<exists>dataset s1 r s'.
     XORDataset_init 2 3 \<lparr>heap = [], gen = (\<lambda>k. k * k + k div 3)\<rparr> = (Inr dataset, s1) \<and>
     train_epochs (\<lambda>m xs lengths logits ys. Inr m) 2 2 True False dataset (\<lambda>epoch. [1, 0]) [1]
       \<lparr>model = RNN_init 1 \<lparr>weight_ih = (\<lambda>j. 1), weight_hh = (\<lambda>j k. 0),
                  bias_ih = (\<lambda>j. 0), bias_hh = (\<lambda>j. 0), weight = (\<lambda>k. 2), bias = - 1\<rparr>,
        step = 0, train_accs = [], valid_accs = [], valid_accuracy = None\<rparr> s1
       = (r, s') \<and>
     heap s1 = [[0, 1, 0, 0, 1, 0], [0, 1, 1, 0, 1, 1]] \<and>
     heap s' = [[0, 1, 0, 0, 1, 0], [0, 1, 1, 0, 1, 1], [0, 1, 0, 0, 1, 0], [0, 1, 1, 0, 1, 0]] \<and>
     heap s' ! base (features dataset) = heap s1 ! base (features dataset) \<and>
     heap s' ! base (labels dataset) = heap s1 ! base (labels dataset)"
proof -
  let ?s0 = "\<lparr>heap = [], gen = (\<lambda>k. k * k + k div 3)\<rparr>"
  let ?st = "\<lparr>model = RNN_init 1 \<lparr>weight_ih = (\<lambda>j. 1), weight_hh = (\<lambda>j k. 0),
                  bias_ih = (\<lambda>j. 0), bias_hh = (\<lambda>j. 0), weight = (\<lambda>k. 2), bias = - 1\<rparr>,
        step = 0, train_accs = [], valid_accs = [], valid_accuracy = None\<rparr>"
  let ?loop = "\<lambda>dataset. train_epochs (\<lambda>m xs lengths logits ys. Inr m) 2 2 True False dataset
      (\<lambda>epoch. [1, 0]) [1] ?st"
  from XORDataset_init_total [of 2 3 ?s0]
  obtain dataset s1 where init: "XORDataset_init 2 3 ?s0 = (Inr dataset, s1)" by auto
  obtain r s' where run: "?loop dataset s1 = (r, s')" by (cases "?loop dataset s1")
  from init run have all: "bindE (XORDataset_init 2 3) ?loop ?s0 = (r, s')"
    by (simp add: bindE_def)
  have "heap (snd (XORDataset_init 2 3 ?s0)) = [[0, 1, 0, 0, 1, 0], [0, 1, 1, 0, 1, 1]]"
    by code_simp
  with init have h1: "heap s1 = [[0, 1, 0, 0, 1, 0], [0, 1, 1, 0, 1, 1]]" by simp
  have "heap (snd (bindE (XORDataset_init 2 3) ?loop ?s0)) =
      [[0, 1, 0, 0, 1, 0], [0, 1, 1, 0, 1, 1], [0, 1, 0, 0, 1, 0], [0, 1, 1, 0, 1, 0]]"
    by code_simp
  with all have h': "heap s' =
      [[0, 1, 0, 0, 1, 0], [0, 1, 1, 0, 1, 1], [0, 1, 0, 0, 1, 0], [0, 1, 1, 0, 1, 0]]" by simp
  from dataset_never_written [OF init order_refl, THEN conjunct2, THEN conjunct2,
      THEN conjunct1, rule_format, OF run]
  have "heap s' ! base (features dataset) = heap s1 ! base (features dataset) \<and>
      heap s' ! base (labels dataset) = heap s1 ! base (labels dataset)" .
  with init run h1 h' show ?thesis by blast
qed

end
